theory Spec2Isabelle
  imports
    Main
    "HOL-Library.Word"
    "HOL-Library.Finite_Map"
    "HOL-Library.Char_ord"
    "HOL-Library.List_Lexorder"
begin

section \<open>Integers, durations and instants\<close>

text \<open>
  Go's \<^verbatim>\<open>int\<close> is a 64-bit two's complement integer on the 64-bit targets: \<open>+\<close> wraps
  around and comparisons are signed (\<open>\<le>s\<close>, \<open><s\<close>). A \<^verbatim>\<open>time.Duration\<close> is an
  \<^verbatim>\<open>int64\<close> count of nanoseconds. An instant (\<^verbatim>\<open>time.Time\<close>) is modelled as an
  unbounded count of nanoseconds on the clock's time line.
\<close>

type_synonym go_int = "64 word"
type_synonym Duration = "64 word"
type_synonym Time = int

definition Second :: Duration where
  "Second = 1000000000"

definition Minute :: Duration where
  "Minute = 60 * Second"

definition minDuration :: Duration where
  "minDuration = - (2 ^ 63)"

definition maxDuration :: Duration where
  "maxDuration = 2 ^ 63 - 1"

text \<open>
  \<^verbatim>\<open>t.Sub(u)\<close> of the time library: the duration \<open>t - u\<close>; when the difference does not
  fit a \<^verbatim>\<open>Duration\<close>, the minimum or the maximum duration is returned.
\<close>

definition Sub :: "Time \<Rightarrow> Time \<Rightarrow> Duration" where
  "Sub t u =
     (if t - u < sint minDuration then minDuration
      else if sint maxDuration < t - u then maxDuration
      else word_of_int (t - u))"

section \<open>The pattern \<^verbatim>\<open>^(.*):[0-9]{1,5}$\<close>\<close>

text \<open>
  Go's \<^verbatim>\<open>regexp\<close> with no flags: \<^verbatim>\<open>.\<close> matches any character but the newline,
  \<^verbatim>\<open>^\<close> and \<^verbatim>\<open>$\<close> match at the two ends of the text only, \<^verbatim>\<open>[0-9]\<close> is an
  ASCII digit, and the greedy \<^verbatim>\<open>.*\<close> prefers the longest prefix for which the rest of
  the pattern still matches. A Go string is a sequence of bytes, as \<^typ>\<open>string\<close> is;
  the colon and the digits are single bytes that occur in no multi-byte character.
\<close>

definition dot :: "char \<Rightarrow> bool" where
  "dot c = (c \<noteq> CHR 0x0A)"

definition digit :: "char \<Rightarrow> bool" where
  "digit c = (c \<in> set ''0123456789'')"

text \<open>The rest of the pattern after the group: \<^verbatim>\<open>:[0-9]{1,5}$\<close>.\<close>

definition port_tail :: "string \<Rightarrow> bool" where
  "port_tail s =
     (case s of
        [] \<Rightarrow> False
      | c # ds \<Rightarrow> c = CHR '':'' \<and> 1 \<le> length ds \<and> length ds \<le> 5 \<and> list_all digit ds)"

text \<open>
  The group \<^verbatim>\<open>(.*)\<close> has taken the first \<open>i\<close> characters; where the rest of the
  pattern fails there, it gives one character back and tries again.
\<close>

fun backtrack :: "nat \<Rightarrow> string \<Rightarrow> string option" where
  "backtrack 0 s = (if port_tail s then Some [] else None)"
| "backtrack (Suc i) s =
     (if port_tail (drop (Suc i) s) then Some (take (Suc i) s) else backtrack i s)"

text \<open>
  \<^verbatim>\<open>patIP.FindStringSubmatch\<close>: nil when there is no match, otherwise the whole match
  (the whole text, the pattern being anchored at both ends) and the group.
\<close>

definition patIP_FindStringSubmatch :: "string \<Rightarrow> string list" where
  "patIP_FindStringSubmatch s =
     (case backtrack (length (takeWhile dot s)) s of
        None \<Rightarrow> []
      | Some g \<Rightarrow> [s, g])"

definition patIP_MatchString :: "string \<Rightarrow> bool" where
  "patIP_MatchString s = (patIP_FindStringSubmatch s \<noteq> [])"

section \<open>The rate limiter\<close>

record ClientActivity =
  requestCount :: go_int
  lastSeen :: Time

record Config =
  Limit :: go_int
  LimitInterval :: Duration
  ClientTimeout :: Duration

record RateLimiter =
  limit :: go_int
  activity :: "(string, ClientActivity) fmap"

record Request =
  RemoteAddr :: string

datatype error =
    ErrInvalidLimit
  | ErrInvalidLimitInterval
  | ErrInvalidClientTimeout
  | PanicNonPositiveInterval

text \<open>The texts the three error values of \<^verbatim>\<open>errors.go\<close> are created with.\<close>

fun error_text :: "error \<Rightarrow> string" where
  "error_text ErrInvalidLimit = ''rate limit must be greater than zero''"
| "error_text ErrInvalidLimitInterval = ''limit interval must be at least one second''"
| "error_text ErrInvalidClientTimeout = ''client timeout must be greater than limit interval''"
| "error_text PanicNonPositiveInterval = ''non-positive interval for NewTicker''"

text \<open>
  A limiter together with the two loops \<^verbatim>\<open>New\<close> starts on it: each loop is its ticker's
  period, \<open>None\<close> while the loop has not been started. The zero value of a
  \<^verbatim>\<open>time.Time\<close> is the instant \<open>zeroTime\<close>.
\<close>

record Running =
  limiter :: RateLimiter
  limitReset :: "Duration option"
  clientCleanup :: "Duration option"

definition zeroTime :: Time where
  "zeroTime = 0"

text \<open>\<^verbatim>\<open>NewTicker\<close> panics on a period that is not positive.\<close>

definition NewTicker :: "Duration \<Rightarrow> error + Duration" where
  "NewTicker d = (if d \<le>s 0 then Inl PanicNonPositiveInterval else Inr d)"

definition startLimitReset :: "Running \<Rightarrow> Duration \<Rightarrow> error + Running" where
  "startLimitReset sys dur =
     (case NewTicker dur of
        Inl e \<Rightarrow> Inl e
      | Inr ticker \<Rightarrow> Inr (sys\<lparr>limitReset := Some ticker\<rparr>))"

definition startClientCleanup :: "Running \<Rightarrow> Duration \<Rightarrow> error + Running" where
  "startClientCleanup sys dur =
     (case NewTicker dur of
        Inl e \<Rightarrow> Inl e
      | Inr ticker \<Rightarrow> Inr (sys\<lparr>clientCleanup := Some ticker\<rparr>))"

definition New :: "Config \<Rightarrow> error + Running" where
  "New cfg =
     (if Limit cfg \<le>s 0 then Inl ErrInvalidLimit
      else if LimitInterval cfg <s Second then Inl ErrInvalidLimitInterval
      else if ClientTimeout cfg \<le>s LimitInterval cfg then Inl ErrInvalidClientTimeout
      else
        (let limiter = \<lparr>limit = Limit cfg, activity = fmempty\<rparr>;
             sys = \<lparr>limiter = limiter, limitReset = None, clientCleanup = None\<rparr>
         in case startLimitReset sys (LimitInterval cfg) of
              Inl e \<Rightarrow> Inl e
            | Inr sys1 \<Rightarrow> startClientCleanup sys1 (ClientTimeout cfg)))"

text \<open>The client identity \<^verbatim>\<open>Allow\<close> computes from the request's remote address.\<close>

definition clientID :: "string \<Rightarrow> string" where
  "clientID addr =
     (if patIP_MatchString addr then patIP_FindStringSubmatch addr ! 1 else '''')"

text \<open>\<^verbatim>\<open>Allow\<close>; \<open>now\<close> is what the limiter's clock reads during the call.\<close>

definition Allow :: "RateLimiter \<Rightarrow> Time \<Rightarrow> Request \<Rightarrow> RateLimiter \<times> bool" where
  "Allow rl now rq =
     (let ident = clientID (RemoteAddr rq);
          act0 = (case fmlookup (activity rl) ident of
                    Some a \<Rightarrow> a
                  | None \<Rightarrow> \<lparr>requestCount = 0, lastSeen = zeroTime\<rparr>);
          act1 = act0\<lparr>requestCount := requestCount act0 + 1\<rparr>;
          act2 = act1\<lparr>lastSeen := now\<rparr>
      in (rl\<lparr>activity := fmupd ident act2 (activity rl)\<rparr>, requestCount act2 \<le>s limit rl))"

text \<open>\<^verbatim>\<open>len\<close> of a map is its number of keys, which always fits an \<^verbatim>\<open>int\<close>.\<close>

definition NumberOfClients :: "RateLimiter \<Rightarrow> nat" where
  "NumberOfClients rl = fcard (fmdom (activity rl))"

text \<open>
  A \<^verbatim>\<open>range\<close> over a map visits every key once, in an order the language leaves open.
  The loops below take the order of the visit as a list of keys; \<open>rangeKeys\<close> is one such
  order, and \<open>range_order\<close> says what every such order satisfies.
\<close>

definition range_order :: "string list \<Rightarrow> (string, 'v) fmap \<Rightarrow> bool" where
  "range_order ks m = (distinct ks \<and> fset_of_list ks = fmdom m)"

definition rangeKeys :: "(string, 'v) fmap \<Rightarrow> string list" where
  "rangeKeys m = sorted_list_of_fset (fmdom m)"

text \<open>
  The body of the reset loop on one tick. Every key of a visit is in the map when the
  loop reaches it, since the loops write at the key they are at and nowhere else; the
  branch for a missing key is there to make the function total.
\<close>

fun resetLoop ::
  "string list \<Rightarrow> (string, ClientActivity) fmap \<Rightarrow> (string, ClientActivity) fmap" where
  "resetLoop [] m = m"
| "resetLoop (client # rest) m =
     (case fmlookup m client of
        None \<Rightarrow> resetLoop rest m
      | Some act \<Rightarrow> resetLoop rest (fmupd client (act\<lparr>requestCount := 0\<rparr>) m))"

definition resetTick :: "RateLimiter \<Rightarrow> RateLimiter" where
  "resetTick rl = rl\<lparr>activity := resetLoop (rangeKeys (activity rl)) (activity rl)\<rparr>"

text \<open>The body of the cleanup loop on one tick that carries the time \<open>now\<close>.\<close>

fun cleanupLoop ::
  "Duration \<Rightarrow> Time \<Rightarrow> string list \<Rightarrow> (string, ClientActivity) fmap
     \<Rightarrow> (string, ClientActivity) fmap" where
  "cleanupLoop dur now [] m = m"
| "cleanupLoop dur now (client # rest) m =
     (case fmlookup m client of
        None \<Rightarrow> cleanupLoop dur now rest m
      | Some act \<Rightarrow>
          if dur \<le>s Sub now (lastSeen act)
          then cleanupLoop dur now rest (fmdrop client m)
          else cleanupLoop dur now rest m)"

definition cleanupTick :: "Duration \<Rightarrow> Time \<Rightarrow> RateLimiter \<Rightarrow> RateLimiter" where
  "cleanupTick dur now rl =
     rl\<lparr>activity := cleanupLoop dur now (rangeKeys (activity rl)) (activity rl)\<rparr>"

section \<open>The no-op limiter and the choice between the two\<close>

datatype NoopLimiter = NoopLimiter

definition NewNoopLimiter :: NoopLimiter where
  "NewNoopLimiter = NoopLimiter"

definition noop_Allow :: "NoopLimiter \<Rightarrow> Request \<Rightarrow> NoopLimiter \<times> bool" where
  "noop_Allow n rq = (n, True)"

text \<open>Any number of calls, one after the other.\<close>

fun noop_run :: "NoopLimiter \<Rightarrow> Request list \<Rightarrow> NoopLimiter \<times> bool list" where
  "noop_run n [] = (n, [])"
| "noop_run n (rq # rqs) =
     (case noop_Allow n rq of
        (n1, ok) \<Rightarrow> (case noop_run n1 rqs of (n2, oks) \<Rightarrow> (n2, ok # oks)))"

datatype Limiter = Noop NoopLimiter | Limiting Running

definition NewRateLimiter :: "go_int \<Rightarrow> error + Limiter" where
  "NewRateLimiter lim =
     (if lim \<le>s 0 then Inr (Noop NewNoopLimiter)
      else
        (let cfg = \<lparr>Limit = lim, LimitInterval = Second, ClientTimeout = Minute\<rparr>
         in case New cfg of
              Inl err \<Rightarrow> Inl err
            | Inr l \<Rightarrow> Inr (Limiting l)))"

section \<open>Runs: calls and ticks, one at a time under the lock\<close>

datatype event =
    AllowCall Request Time
  | ResetTick
  | CleanupTick Time

text \<open>
  One event on a running limiter. A call yields the identity it counted and its answer;
  a tick of a loop that was never started does nothing.
\<close>

fun step :: "Running \<Rightarrow> event \<Rightarrow> Running \<times> (string \<times> bool) list" where
  "step sys (AllowCall rq now) =
     (case Allow (limiter sys) now rq of
        (rl', ok) \<Rightarrow> (sys\<lparr>limiter := rl'\<rparr>, [(clientID (RemoteAddr rq), ok)]))"
| "step sys ResetTick =
     (case limitReset sys of
        None \<Rightarrow> (sys, [])
      | Some dur \<Rightarrow> (sys\<lparr>limiter := resetTick (limiter sys)\<rparr>, []))"
| "step sys (CleanupTick now) =
     (case clientCleanup sys of
        None \<Rightarrow> (sys, [])
      | Some dur \<Rightarrow> (sys\<lparr>limiter := cleanupTick dur now (limiter sys)\<rparr>, []))"

fun exec :: "Running \<Rightarrow> event list \<Rightarrow> Running \<times> (string \<times> bool) list" where
  "exec sys [] = (sys, [])"
| "exec sys (e # es) =
     (case step sys e of
        (sys1, out1) \<Rightarrow> (case exec sys1 es of (sys2, out2) \<Rightarrow> (sys2, out1 @ out2)))"

text \<open>The answers a client got during a run, in order.\<close>

definition answers :: "string \<Rightarrow> (string \<times> bool) list \<Rightarrow> bool list" where
  "answers ident outs = map snd (filter (\<lambda>p. fst p = ident) outs)"

section \<open>Observing a run\<close>

text \<open>
  The count a call of \<^verbatim>\<open>Allow\<close> starts from: the stored one, or 0 for an identity that
  is not tracked. \<open>calls_of\<close> counts a client's calls in a run; \<open>no_reset\<close> says the run
  has no reset tick; \<open>same_interval\<close> says that the client's calls come at \<open>t0\<close> or later
  and the cleanup ticks less than \<open>w\<close> after \<open>t0\<close> (the calls of other clients may come
  at any time); \<open>seen_since\<close> says that the client's record, if there is one, was last
  seen at \<open>t0\<close> or later; \<open>no_stale_count\<close> says that the client carries no count from
  before \<open>t0\<close>: it was last seen at \<open>t0\<close> or later, or its count is 0, as it is on a
  fresh limiter, for an untracked client and after every reset tick.
\<close>

definition count_of :: "RateLimiter \<Rightarrow> string \<Rightarrow> go_int" where
  "count_of rl ident =
     (case fmlookup (activity rl) ident of None \<Rightarrow> 0 | Some a \<Rightarrow> requestCount a)"

fun calls_of :: "string \<Rightarrow> event list \<Rightarrow> nat" where
  "calls_of ident [] = 0"
| "calls_of ident (AllowCall rq t # es) =
     (if clientID (RemoteAddr rq) = ident then Suc (calls_of ident es) else calls_of ident es)"
| "calls_of ident (ResetTick # es) = calls_of ident es"
| "calls_of ident (CleanupTick t # es) = calls_of ident es"

definition no_reset :: "event list \<Rightarrow> bool" where
  "no_reset evs = list_all (\<lambda>e. e \<noteq> ResetTick) evs"

fun in_window :: "string \<Rightarrow> Time \<Rightarrow> int \<Rightarrow> event \<Rightarrow> bool" where
  "in_window ident t0 w (AllowCall rq t) = (clientID (RemoteAddr rq) = ident \<longrightarrow> t0 \<le> t)"
| "in_window ident t0 w ResetTick = True"
| "in_window ident t0 w (CleanupTick t) = (t - t0 < w)"

definition same_interval :: "string \<Rightarrow> Time \<Rightarrow> int \<Rightarrow> event list \<Rightarrow> bool" where
  "same_interval ident t0 w evs = list_all (in_window ident t0 w) evs"

definition seen_since :: "Time \<Rightarrow> RateLimiter \<Rightarrow> string \<Rightarrow> bool" where
  "seen_since t0 rl ident =
     (case fmlookup (activity rl) ident of None \<Rightarrow> True | Some a \<Rightarrow> t0 \<le> lastSeen a)"

definition no_stale_count :: "Time \<Rightarrow> RateLimiter \<Rightarrow> string \<Rightarrow> bool" where
  "no_stale_count t0 rl ident = (seen_since t0 rl ident \<or> count_of rl ident = 0)"

text \<open>
  \<open>spared\<close> says that no cleanup tick of the run changes the client's count, that is,
  none deletes a record of the client that holds a count other than 0.
\<close>

fun spared :: "string \<Rightarrow> Running \<Rightarrow> event list \<Rightarrow> bool" where
  "spared ident sys [] = True"
| "spared ident sys (e # es) =
     ((case e of
         CleanupTick now \<Rightarrow>
           count_of (limiter (fst (step sys e))) ident = count_of (limiter sys) ident
       | _ \<Rightarrow> True) \<and>
      spared ident (fst (step sys e)) es)"

section \<open>Example states\<close>

text \<open>
  The configuration of the repository's test, a limiter that tracks two clients, the
  limiters \<^verbatim>\<open>New\<close> builds for the limits 5, 1 and \<open>2^63 - 1\<close>, and a few runs. Times are
  in nanoseconds.
\<close>

definition test_config :: Config where
  "test_config = \<lparr>Limit = 5, LimitInterval = Second, ClientTimeout = Minute\<rparr>"

definition two_clients :: RateLimiter where
  "two_clients =
     \<lparr>limit = 5,
      activity = fmupd ''10.0.0.1'' \<lparr>requestCount = 3, lastSeen = 0\<rparr>
                  (fmupd ''10.0.0.2'' \<lparr>requestCount = 7, lastSeen = 30000000000\<rparr> fmempty)\<rparr>"

definition running_two_clients :: Running where
  "running_two_clients =
     \<lparr>limiter = two_clients, limitReset = Some Second, clientCleanup = Some Minute\<rparr>"

definition limit_one :: Running where
  "limit_one =
     \<lparr>limiter = \<lparr>limit = 1, activity = fmempty\<rparr>,
      limitReset = Some Second, clientCleanup = Some Minute\<rparr>"


definition test_call :: event where
  "test_call = AllowCall \<lparr>RemoteAddr = ''test''\<rparr> 0"


definition five_per_second :: Running where
  "five_per_second =
     \<lparr>limiter = \<lparr>limit = 5, activity = fmempty\<rparr>,
      limitReset = Some Second, clientCleanup = Some Minute\<rparr>"


definition limit_one_history :: "event list" where
  "limit_one_history =
     [AllowCall \<lparr>RemoteAddr = ''10.0.0.1:4711''\<rparr> (- 90000000000),
      AllowCall \<lparr>RemoteAddr = ''test''\<rparr> 0,
      AllowCall \<lparr>RemoteAddr = ''test''\<rparr> 0,
      ResetTick]"

definition after_reset :: "event list" where
  "after_reset =
     [AllowCall \<lparr>RemoteAddr = ''test''\<rparr> 2,
      CleanupTick 3,
      AllowCall \<lparr>RemoteAddr = ''10.0.0.1:4711''\<rparr> 1,
      AllowCall \<lparr>RemoteAddr = ''test''\<rparr> 5,
      AllowCall \<lparr>RemoteAddr = ''test''\<rparr> 6]"


definition evicted_after_denial :: "event list" where
  "evicted_after_denial =
     [AllowCall \<lparr>RemoteAddr = ''test''\<rparr> 0,
      AllowCall \<lparr>RemoteAddr = ''test''\<rparr> 0,
      CleanupTick 60000000000,
      AllowCall \<lparr>RemoteAddr = ''test''\<rparr> 60000000000]"

section \<open>Properties\<close>

lemma sint_Second: "sint Second = 1000000000"
  by (simp add: Second_def)

lemma sint_Minute: "sint Minute = 60000000000"
  by (simp add: Minute_def Second_def)

lemma noop_run_all_True: "noop_run n rqs = (n, replicate (length rqs) True)"
  by (induction rqs arbitrary: n) (simp_all add: noop_Allow_def)

text \<open>
  Claim C7: the no-op limiter's \<^verbatim>\<open>Allow\<close> answers true for every request and after
  every number of earlier calls; the limiter has no state (its type has one value, which
  every call returns as it found it); and its constructor takes no configuration and
  returns that value, with no error to return.
\<close>

theorem noop_always_allows:
  "NewNoopLimiter = NoopLimiter \<and> n = NewNoopLimiter \<and>
   noop_Allow n rq = (n, True) \<and>
   noop_run n rqs = (n, replicate (length rqs) True)"
  by (cases n) (simp add: NewNoopLimiter_def noop_Allow_def noop_run_all_True)

theorem noop_always_allows_witness:
  "snd (noop_run NewNoopLimiter (replicate 1000 \<lparr>RemoteAddr = ''test''\<rparr>)) = replicate 1000 True"
  using noop_always_allows [of NoopLimiter "\<lparr>RemoteAddr = ''test''\<rparr>"
      "replicate 1000 \<lparr>RemoteAddr = ''test''\<rparr>"]
  by (simp add: NewNoopLimiter_def)

lemma New_success:
  "0 < sint (Limit cfg) \<Longrightarrow> 1000000000 \<le> sint (LimitInterval cfg) \<Longrightarrow>
   sint (LimitInterval cfg) < sint (ClientTimeout cfg) \<Longrightarrow>
   New cfg = Inr \<lparr>limiter = \<lparr>limit = Limit cfg, activity = fmempty\<rparr>,
                  limitReset = Some (LimitInterval cfg),
                  clientCleanup = Some (ClientTimeout cfg)\<rparr>"
  by (simp add: New_def startLimitReset_def startClientCleanup_def NewTicker_def
      word_sle_eq word_sless_alt sint_Second)

lemma New_cases:
  "New cfg =
     (if sint (Limit cfg) \<le> 0 then Inl ErrInvalidLimit
      else if sint (LimitInterval cfg) < 1000000000 then Inl ErrInvalidLimitInterval
      else if sint (ClientTimeout cfg) \<le> sint (LimitInterval cfg) then Inl ErrInvalidClientTimeout
      else Inr \<lparr>limiter = \<lparr>limit = Limit cfg, activity = fmempty\<rparr>,
                limitReset = Some (LimitInterval cfg),
                clientCleanup = Some (ClientTimeout cfg)\<rparr>)"
proof -
  consider "sint (Limit cfg) \<le> 0"
    | "0 < sint (Limit cfg)" "sint (LimitInterval cfg) < 1000000000"
    | "0 < sint (Limit cfg)" "1000000000 \<le> sint (LimitInterval cfg)"
      "sint (ClientTimeout cfg) \<le> sint (LimitInterval cfg)"
    | "0 < sint (Limit cfg)" "1000000000 \<le> sint (LimitInterval cfg)"
      "sint (LimitInterval cfg) < sint (ClientTimeout cfg)"
    by linarith
  then show ?thesis
  proof cases
    case 1
    then show ?thesis by (simp add: New_def word_sle_eq)
  next
    case 2
    then show ?thesis by (simp add: New_def word_sle_eq word_sless_alt sint_Second)
  next
    case 3
    then show ?thesis by (simp add: New_def word_sle_eq word_sless_alt sint_Second)
  next
    case 4
    then show ?thesis using New_success [of cfg] by simp
  qed
qed

text \<open>
  Claim C2: \<^verbatim>\<open>New\<close> checks the configuration in order and fails with the error of the
  first rule that is violated: the invalid-limit error exactly when \<open>Limit \<le> 0\<close>;
  otherwise the invalid-limit-interval error exactly when \<open>LimitInterval\<close> is less than
  one second; otherwise the invalid-client-timeout error exactly when
  \<open>ClientTimeout \<le> LimitInterval\<close>; otherwise it succeeds (and no ticker panics). A
  failure returns no limiter (the left injection carries the error only). The three
  errors are pairwise distinct, and so are their texts.
\<close>

theorem New_validates_in_order:
  "(New cfg = Inl ErrInvalidLimit \<longleftrightarrow> sint (Limit cfg) \<le> 0) \<and>
   (New cfg = Inl ErrInvalidLimitInterval \<longleftrightarrow>
      0 < sint (Limit cfg) \<and> sint (LimitInterval cfg) < 1000000000) \<and>
   (New cfg = Inl ErrInvalidClientTimeout \<longleftrightarrow>
      0 < sint (Limit cfg) \<and> 1000000000 \<le> sint (LimitInterval cfg) \<and>
      sint (ClientTimeout cfg) \<le> sint (LimitInterval cfg)) \<and>
   ((\<exists>sys. New cfg = Inr sys) \<longleftrightarrow>
      0 < sint (Limit cfg) \<and> 1000000000 \<le> sint (LimitInterval cfg) \<and>
      sint (LimitInterval cfg) < sint (ClientTimeout cfg)) \<and>
   New cfg \<noteq> Inl PanicNonPositiveInterval \<and>
   distinct [ErrInvalidLimit, ErrInvalidLimitInterval, ErrInvalidClientTimeout] \<and>
   distinct (map error_text [ErrInvalidLimit, ErrInvalidLimitInterval, ErrInvalidClientTimeout])"
  by (simp add: New_cases)

theorem New_validates_in_order_witness:
  "New \<lparr>Limit = 0, LimitInterval = 0, ClientTimeout = 0\<rparr> = Inl ErrInvalidLimit \<and>
   New \<lparr>Limit = 10, LimitInterval = 0, ClientTimeout = 0\<rparr> = Inl ErrInvalidLimitInterval \<and>
   New \<lparr>Limit = 10, LimitInterval = Second, ClientTimeout = 0\<rparr> = Inl ErrInvalidClientTimeout \<and>
   (\<exists>sys. New \<lparr>Limit = 5, LimitInterval = Second, ClientTimeout = Minute\<rparr> = Inr sys)"
  using New_validates_in_order [of "\<lparr>Limit = 0, LimitInterval = 0, ClientTimeout = 0\<rparr>"]
    New_validates_in_order [of "\<lparr>Limit = 10, LimitInterval = 0, ClientTimeout = 0\<rparr>"]
    New_validates_in_order [of "\<lparr>Limit = 10, LimitInterval = Second, ClientTimeout = 0\<rparr>"]
    New_validates_in_order [of "\<lparr>Limit = 5, LimitInterval = Second, ClientTimeout = Minute\<rparr>"]
  by (simp add: sint_Second sint_Minute)

text \<open>
  Claim C8: \<^verbatim>\<open>NewRateLimiter\<close> returns the no-op limiter, and no error, exactly when
  the limit is \<open>\<le> 0\<close>; for every positive limit it returns the limiter that
  \<^verbatim>\<open>New\<close> builds with that limit, a limit interval of one second and a client timeout
  of one minute, whose two loops tick with these periods.
\<close>

theorem NewRateLimiter_selects:
  "((\<exists>n. NewRateLimiter lim = Inr (Noop n)) \<longleftrightarrow> sint lim \<le> 0) \<and>
   (sint lim \<le> 0 \<longrightarrow> NewRateLimiter lim = Inr (Noop NewNoopLimiter)) \<and>
   (0 < sint lim \<longrightarrow>
      New \<lparr>Limit = lim, LimitInterval = Second, ClientTimeout = Minute\<rparr> =
        Inr \<lparr>limiter = \<lparr>limit = lim, activity = fmempty\<rparr>,
             limitReset = Some Second, clientCleanup = Some Minute\<rparr> \<and>
      NewRateLimiter lim =
        Inr (Limiting \<lparr>limiter = \<lparr>limit = lim, activity = fmempty\<rparr>,
                       limitReset = Some Second, clientCleanup = Some Minute\<rparr>)) \<and>
   sint Second = 1000000000 \<and> sint Minute = 60 * 1000000000"
  by (simp add: NewRateLimiter_def New_cases word_sle_eq sint_Second sint_Minute)

theorem NewRateLimiter_selects_witness:
  "NewRateLimiter 0 = Inr (Noop NewNoopLimiter) \<and>
   NewRateLimiter (- 3) = Inr (Noop NewNoopLimiter) \<and>
   NewRateLimiter 5 =
     Inr (Limiting \<lparr>limiter = \<lparr>limit = 5, activity = fmempty\<rparr>,
                    limitReset = Some Second, clientCleanup = Some Minute\<rparr>)"
  using NewRateLimiter_selects [of 0] NewRateLimiter_selects [of "- 3"]
    NewRateLimiter_selects [of 5]
  by simp

subsection \<open>The two ticks\<close>

lemma sint_word_of_int_in_range:
  "- (2 ^ 63) \<le> d \<Longrightarrow> d < 2 ^ 63 \<Longrightarrow> sint (word_of_int d :: 64 word) = d"
  by (simp add: sint_sbintrunc' signed_take_bit_int_eq_self)

lemma sint_minDuration: "sint minDuration = - (2 ^ 63)"
  by (simp add: minDuration_def)

lemma sint_maxDuration: "sint maxDuration = 2 ^ 63 - 1"
  by (simp add: maxDuration_def)

lemma sint_bounds64: "- (2 ^ 63) \<le> sint (w :: 64 word) \<and> sint w < 2 ^ 63"
  using sint_ge [of w] sint_lt [of w] by simp

text \<open>For a positive period, comparing the saturated difference is comparing the true one.\<close>

lemma Sub_ge_iff:
  assumes "0 < sint dur"
  shows "dur \<le>s Sub now t \<longleftrightarrow> sint dur \<le> now - t"
proof -
  have b: "sint dur < 2 ^ 63" using sint_bounds64 [of dur] by simp
  consider "now - t < - (2 ^ 63)" | "2 ^ 63 - 1 < now - t"
    | "- (2 ^ 63) \<le> now - t" "now - t < 2 ^ 63"
    by linarith
  then show ?thesis
  proof cases
    case 1
    then have "Sub now t = minDuration" by (simp add: Sub_def sint_minDuration)
    with 1 assms show ?thesis by (simp add: word_sle_eq sint_minDuration)
  next
    case 2
    then have "Sub now t = maxDuration"
      by (simp add: Sub_def sint_minDuration sint_maxDuration)
    with 2 b show ?thesis by (simp add: word_sle_eq sint_maxDuration)
  next
    case 3
    then have "Sub now t = word_of_int (now - t)"
      by (simp add: Sub_def sint_minDuration sint_maxDuration)
    then have "sint (Sub now t) = now - t"
      using 3 sint_word_of_int_in_range [of "now - t"] by (simp only:)
    then show ?thesis by (simp only: word_sle_eq)
  qed
qed

lemma resetLoop_lookup:
  "fmlookup (resetLoop ks m) k =
     (if k \<in> set ks then map_option (\<lambda>a. a\<lparr>requestCount := 0\<rparr>) (fmlookup m k)
      else fmlookup m k)"
  by (induction ks arbitrary: m) (auto split: option.splits)

lemma cleanupLoop_lookup:
  "fmlookup (cleanupLoop dur now ks m) k =
     (case fmlookup m k of
        None \<Rightarrow> None
      | Some a \<Rightarrow> if k \<in> set ks \<and> dur \<le>s Sub now (lastSeen a) then None else Some a)"
  by (induction ks arbitrary: m) (auto split: option.splits)

lemma set_rangeKeys: "k \<in> set (rangeKeys m) \<longleftrightarrow> fmlookup m k \<noteq> None"
  by (simp add: rangeKeys_def fmlookup_dom_iff)

lemma distinct_rangeKeys: "distinct (rangeKeys m)"
  by (simp add: rangeKeys_def sorted_list_of_fset.rep_eq)

lemma range_order_rangeKeys: "range_order (rangeKeys m) m"
  by (simp add: range_order_def distinct_rangeKeys) (simp add: rangeKeys_def)

lemma set_range_order: "range_order ks m \<Longrightarrow> k \<in> set ks \<longleftrightarrow> fmlookup m k \<noteq> None"
  by (metis fmdom_notD fmdom_notI fset_of_list.rep_eq range_order_def)

lemma resetTick_lookup:
  "fmlookup (activity (resetTick rl)) k =
     map_option (\<lambda>a. a\<lparr>requestCount := 0\<rparr>) (fmlookup (activity rl) k)"
  by (cases "fmlookup (activity rl) k") (simp_all add: resetTick_def resetLoop_lookup set_rangeKeys)

lemma resetLoop_any_order:
  "range_order ks (activity rl) \<Longrightarrow> resetLoop ks (activity rl) = activity (resetTick rl)"
  by (rule fmap_ext) (simp add: resetTick_lookup resetLoop_lookup set_range_order)

lemma cleanupTick_lookup:
  "fmlookup (activity (cleanupTick dur now rl)) k =
     (case fmlookup (activity rl) k of
        None \<Rightarrow> None
      | Some a \<Rightarrow> if dur \<le>s Sub now (lastSeen a) then None else Some a)"
  by (cases "fmlookup (activity rl) k")
     (simp_all add: cleanupTick_def cleanupLoop_lookup set_rangeKeys)

lemma cleanupLoop_any_order:
  "range_order ks (activity rl) \<Longrightarrow>
   cleanupLoop dur now ks (activity rl) = activity (cleanupTick dur now rl)"
  by (rule fmap_ext)
     (simp add: cleanupTick_lookup cleanupLoop_lookup set_range_order split: option.splits)

lemma fmdom_resetTick: "fmdom (activity (resetTick rl)) = fmdom (activity rl)"
  by (rule fset_eqI) (simp add: fmlookup_dom_iff resetTick_lookup)

lemma limit_resetTick: "limit (resetTick rl) = limit rl"
  by (simp add: resetTick_def)

lemma limit_cleanupTick: "limit (cleanupTick dur now rl) = limit rl"
  by (simp add: cleanupTick_def)

lemma New_Inr_D:
  "New cfg = Inr sys0 \<Longrightarrow>
   0 < sint (Limit cfg) \<and> 1000000000 \<le> sint (LimitInterval cfg) \<and>
   sint (LimitInterval cfg) < sint (ClientTimeout cfg) \<and>
   sys0 = \<lparr>limiter = \<lparr>limit = Limit cfg, activity = fmempty\<rparr>,
           limitReset = Some (LimitInterval cfg),
           clientCleanup = Some (ClientTimeout cfg)\<rparr>"
  by (simp add: New_cases split: if_splits)

lemma ClientActivity_updates:
  "a\<lparr>requestCount := c, lastSeen := t\<rparr> = \<lparr>requestCount = c, lastSeen = t\<rparr>"
  by (cases a) simp

lemma Allow_eq:
  "Allow rl now rq =
     (rl\<lparr>activity :=
          fmupd (clientID (RemoteAddr rq))
            \<lparr>requestCount =
               (case fmlookup (activity rl) (clientID (RemoteAddr rq)) of
                  None \<Rightarrow> 0 | Some a \<Rightarrow> requestCount a) + 1,
             lastSeen = now\<rparr>
            (activity rl)\<rparr>,
      (case fmlookup (activity rl) (clientID (RemoteAddr rq)) of
         None \<Rightarrow> 0 | Some a \<Rightarrow> requestCount a) + 1 \<le>s limit rl)"
  by (simp add: Allow_def Let_def ClientActivity_updates split: option.splits)

lemma count_of_Allow:
  "count_of (fst (Allow rl now rq)) ident =
     (if clientID (RemoteAddr rq) = ident then count_of rl ident + 1 else count_of rl ident)"
  by (simp add: Allow_eq count_of_def)

lemma snd_Allow: "snd (Allow rl now rq) = (count_of rl (clientID (RemoteAddr rq)) + 1 \<le>s limit rl)"
  by (simp add: Allow_eq count_of_def)

lemma limit_Allow: "limit (fst (Allow rl now rq)) = limit rl"
  by (simp add: Allow_eq)

lemma lookup_Allow:
  "fmlookup (activity (fst (Allow rl now rq))) (clientID (RemoteAddr rq)) =
     Some \<lparr>requestCount = count_of rl (clientID (RemoteAddr rq)) + 1, lastSeen = now\<rparr>"
  by (simp add: Allow_eq count_of_def)

text \<open>
  Claim C9: a call of \<^verbatim>\<open>Allow\<close> changes at most the record of the identity it extracts
  from the request: every other identity keeps its record (count and last-seen time) or
  stays untracked; the tracked identities are the old ones and the caller's, so they stay
  the same when the caller was tracked and grow by that one identity when it was not;
  \<^verbatim>\<open>NumberOfClients\<close> does not decrease, and the limit is unchanged.
\<close>

theorem Allow_touches_one_record:
  "Allow rl now rq = (rl', ok) \<Longrightarrow>
   (k \<noteq> clientID (RemoteAddr rq) \<longrightarrow>
      fmlookup (activity rl') k = fmlookup (activity rl) k) \<and>
   fmdom (activity rl') = finsert (clientID (RemoteAddr rq)) (fmdom (activity rl)) \<and>
   (clientID (RemoteAddr rq) |\<in>| fmdom (activity rl) \<longrightarrow>
      fmdom (activity rl') = fmdom (activity rl) \<and>
      NumberOfClients rl' = NumberOfClients rl) \<and>
   (clientID (RemoteAddr rq) |\<notin>| fmdom (activity rl) \<longrightarrow>
      NumberOfClients rl' = NumberOfClients rl + 1) \<and>
   NumberOfClients rl \<le> NumberOfClients rl' \<and>
   limit rl' = limit rl"
  by (auto simp: Allow_eq NumberOfClients_def fcard_finsert_if fcard_finsert_le)

theorem Allow_touches_one_record_witness:
  "fmlookup (activity (fst (Allow two_clients 5 \<lparr>RemoteAddr = ''test''\<rparr>))) ''10.0.0.1'' =
     Some \<lparr>requestCount = 3, lastSeen = 0\<rparr> \<and>
   NumberOfClients (fst (Allow two_clients 5 \<lparr>RemoteAddr = ''test''\<rparr>)) =
     NumberOfClients two_clients + 1"
  using Allow_touches_one_record [of two_clients 5 "\<lparr>RemoteAddr = ''test''\<rparr>"
      "fst (Allow two_clients 5 \<lparr>RemoteAddr = ''test''\<rparr>)"
      "snd (Allow two_clients 5 \<lparr>RemoteAddr = ''test''\<rparr>)" "''10.0.0.1''"]
  by (simp add: two_clients_def clientID_def patIP_MatchString_def
      patIP_FindStringSubmatch_def dot_def port_tail_def)

text \<open>
  Claim C4: a tick of the reset loop runs \<open>resetTick\<close> on the limiter; afterwards every
  tracked record has count 0 and the last-seen time it had, no identity was added or
  removed, \<^verbatim>\<open>NumberOfClients\<close> and the limit are unchanged; and the outcome is the same
  for every order in which the \<^verbatim>\<open>range\<close> may visit the keys.
\<close>

theorem reset_tick_zeroes_counts_only:
  "(New cfg = Inr sys0 \<longrightarrow> limitReset sys0 = Some (LimitInterval cfg)) \<and>
   (limitReset sys = Some dur \<longrightarrow>
      step sys ResetTick = (sys\<lparr>limiter := resetTick (limiter sys)\<rparr>, [])) \<and>
   (fmlookup (activity rl) k = Some a \<longrightarrow>
      fmlookup (activity (resetTick rl)) k = Some \<lparr>requestCount = 0, lastSeen = lastSeen a\<rparr>) \<and>
   (fmlookup (activity rl) k = None \<longrightarrow> fmlookup (activity (resetTick rl)) k = None) \<and>
   fmdom (activity (resetTick rl)) = fmdom (activity rl) \<and>
   NumberOfClients (resetTick rl) = NumberOfClients rl \<and>
   limit (resetTick rl) = limit rl \<and>
   (range_order ks (activity rl) \<longrightarrow> resetLoop ks (activity rl) = activity (resetTick rl))"
proof -
  have "limitReset sys0 = Some (LimitInterval cfg)" if "New cfg = Inr sys0"
    using New_Inr_D [OF that] by simp
  then show ?thesis
    by (simp add: resetTick_lookup fmdom_resetTick NumberOfClients_def limit_resetTick
        resetLoop_any_order)
qed

theorem reset_tick_zeroes_counts_only_witness:
  "fmlookup (activity (resetTick two_clients)) ''10.0.0.1'' =
     Some \<lparr>requestCount = 0, lastSeen = 0\<rparr> \<and>
   fmlookup (activity (resetTick two_clients)) ''10.0.0.2'' =
     Some \<lparr>requestCount = 0, lastSeen = 30000000000\<rparr> \<and>
   fmlookup (activity (resetTick two_clients)) ''10.0.0.3'' = None \<and>
   resetLoop [''10.0.0.2'', ''10.0.0.1''] (activity two_clients) =
     activity (resetTick two_clients)"
  using
    reset_tick_zeroes_counts_only [of test_config five_per_second running_two_clients Second
      two_clients "''10.0.0.1''"
      "\<lparr>requestCount = 3, lastSeen = 0\<rparr>" "[''10.0.0.2'', ''10.0.0.1'']"]
    reset_tick_zeroes_counts_only [of test_config five_per_second running_two_clients Second
      two_clients "''10.0.0.2''"
      "\<lparr>requestCount = 7, lastSeen = 30000000000\<rparr>" "[]"]
    reset_tick_zeroes_counts_only [of test_config five_per_second running_two_clients Second
      two_clients "''10.0.0.3''"
      "\<lparr>requestCount = 0, lastSeen = 0\<rparr>" "[]"]
  by (simp add: two_clients_def range_order_def finsert_commute)

lemma cleanup_ge_iff:
  assumes "New cfg = Inr sys0"
  shows "ClientTimeout cfg \<le>s Sub now t \<longleftrightarrow> sint (ClientTimeout cfg) \<le> now - t"
proof -
  from New_Inr_D [OF assms] have "0 < sint (ClientTimeout cfg)" by linarith
  then show ?thesis by (rule Sub_ge_iff)
qed

text \<open>
  Claim C3: for a limiter built by \<^verbatim>\<open>New\<close> the cleanup loop ticks with the period
  \<open>ClientTimeout\<close>, and a tick that carries the time \<open>now\<close> deletes a tracked record
  exactly when \<open>now\<close> minus its last-seen time is at least \<open>ClientTimeout\<close>. So after
  the tick every record in the store was seen less than \<open>ClientTimeout\<close> before
  \<open>now\<close>, every such record of the old store is still there with the same fields, no
  record was added, and the outcome is the same for every order of the visit.
\<close>

theorem cleanup_tick_evicts_exactly_idle:
  assumes "New cfg = Inr sys0"
  shows
  "clientCleanup sys0 = Some (ClientTimeout cfg) \<and>
   (clientCleanup sys = Some (ClientTimeout cfg) \<longrightarrow>
      step sys (CleanupTick now) =
        (sys\<lparr>limiter := cleanupTick (ClientTimeout cfg) now (limiter sys)\<rparr>, [])) \<and>
   (fmlookup (activity rl) k = Some a \<longrightarrow>
      (fmlookup (activity (cleanupTick (ClientTimeout cfg) now rl)) k = None \<longleftrightarrow>
         sint (ClientTimeout cfg) \<le> now - lastSeen a) \<and>
      (now - lastSeen a < sint (ClientTimeout cfg) \<longrightarrow>
         fmlookup (activity (cleanupTick (ClientTimeout cfg) now rl)) k = Some a)) \<and>
   (fmlookup (activity (cleanupTick (ClientTimeout cfg) now rl)) k = Some a' \<longrightarrow>
      fmlookup (activity rl) k = Some a' \<and> now - lastSeen a' < sint (ClientTimeout cfg)) \<and>
   limit (cleanupTick (ClientTimeout cfg) now rl) = limit rl \<and>
   (range_order ks (activity rl) \<longrightarrow>
      cleanupLoop (ClientTimeout cfg) now ks (activity rl) =
        activity (cleanupTick (ClientTimeout cfg) now rl))"
proof -
  have 1: "clientCleanup sys0 = Some (ClientTimeout cfg)"
    using New_Inr_D [OF assms] by simp
  have 2: "fmlookup (activity (cleanupTick (ClientTimeout cfg) now rl)) k =
             (case fmlookup (activity rl) k of
                None \<Rightarrow> None
              | Some a \<Rightarrow> if sint (ClientTimeout cfg) \<le> now - lastSeen a then None else Some a)"
    by (simp add: cleanupTick_lookup cleanup_ge_iff [OF assms] split: option.splits)
  show ?thesis
    by (simp add: 1 2 limit_cleanupTick cleanupLoop_any_order split: option.splits)
qed

theorem cleanup_tick_evicts_exactly_idle_witness:
  "fmlookup (activity (cleanupTick Minute 60000000000 two_clients)) ''10.0.0.1'' = None \<and>
   fmlookup (activity (cleanupTick Minute 60000000000 two_clients)) ''10.0.0.2'' =
     Some \<lparr>requestCount = 7, lastSeen = 30000000000\<rparr>"
  using
    cleanup_tick_evicts_exactly_idle
      [of "\<lparr>Limit = 5, LimitInterval = Second, ClientTimeout = Minute\<rparr>"
        "\<lparr>limiter = \<lparr>limit = 5, activity = fmempty\<rparr>,
          limitReset = Some Second, clientCleanup = Some Minute\<rparr>"
        running_two_clients 60000000000 two_clients "''10.0.0.1''"
        "\<lparr>requestCount = 3, lastSeen = 0\<rparr>" "\<lparr>requestCount = 3, lastSeen = 0\<rparr>" "[]"]
    cleanup_tick_evicts_exactly_idle
      [of "\<lparr>Limit = 5, LimitInterval = Second, ClientTimeout = Minute\<rparr>"
        "\<lparr>limiter = \<lparr>limit = 5, activity = fmempty\<rparr>,
          limitReset = Some Second, clientCleanup = Some Minute\<rparr>"
        running_two_clients 60000000000 two_clients "''10.0.0.2''"
        "\<lparr>requestCount = 7, lastSeen = 30000000000\<rparr>"
        "\<lparr>requestCount = 7, lastSeen = 30000000000\<rparr>" "[]"]
  by (simp add: New_cases sint_Second sint_Minute two_clients_def)

subsection \<open>Client identities\<close>

lemma digit_not_colon: "digit c \<Longrightarrow> c \<noteq> CHR '':''"
  by (auto simp: digit_def)

lemma port_tail_iff:
  "port_tail t \<longleftrightarrow>
     (\<exists>ds. t = CHR '':'' # ds \<and> 1 \<le> length ds \<and> length ds \<le> 5 \<and> (\<forall>c\<in>set ds. digit c))"
  by (cases t) (auto simp: port_tail_def list_all_iff)

lemma port_tail_shape:
  "port_tail (drop i s) \<longleftrightarrow>
     (\<exists>ds. s = take i s @ CHR '':'' # ds \<and> 1 \<le> length ds \<and> length ds \<le> 5 \<and>
           (\<forall>c\<in>set ds. digit c))"
proof
  assume "port_tail (drop i s)"
  then obtain ds where ds: "drop i s = CHR '':'' # ds" "1 \<le> length ds" "length ds \<le> 5"
      "\<forall>c\<in>set ds. digit c"
    by (auto simp: port_tail_iff)
  have "s = take i s @ drop i s" by simp
  with ds show "\<exists>ds. s = take i s @ CHR '':'' # ds \<and> 1 \<le> length ds \<and> length ds \<le> 5 \<and>
           (\<forall>c\<in>set ds. digit c)"
    by metis
next
  assume "\<exists>ds. s = take i s @ CHR '':'' # ds \<and> 1 \<le> length ds \<and> length ds \<le> 5 \<and>
           (\<forall>c\<in>set ds. digit c)"
  then obtain ds where ds: "s = take i s @ CHR '':'' # ds" "1 \<le> length ds" "length ds \<le> 5"
      "\<forall>c\<in>set ds. digit c"
    by blast
  from ds(1) have "drop i s = CHR '':'' # ds"
    by (metis append_eq_conv_conj append_take_drop_id)
  with ds show "port_tail (drop i s)" by (auto simp: port_tail_iff)
qed

lemma port_tail_no_later:
  assumes "port_tail (drop i s)" and "i < j"
  shows "\<not> port_tail (drop j s)"
proof
  assume j: "port_tail (drop j s)"
  from assms(1) obtain ds where ds: "drop i s = CHR '':'' # ds" "\<forall>c\<in>set ds. digit c"
    by (auto simp: port_tail_iff)
  from j obtain es where es: "drop j s = CHR '':'' # es"
    by (auto simp: port_tail_iff)
  from \<open>i < j\<close> obtain d where d: "j = Suc (i + d)"
    using less_imp_Suc_add by blast
  have "drop j s = drop (Suc d) (drop i s)"
    unfolding d by (simp add: add.commute)
  with ds have "drop j s = drop d ds" by simp
  with es have "CHR '':'' \<in> set (drop d ds)" by simp
  then have "CHR '':'' \<in> set ds" by (rule in_set_dropD)
  with ds(2) show False using digit_not_colon by blast
qed

lemma port_tail_unique:
  "port_tail (drop i s) \<Longrightarrow> port_tail (drop j s) \<Longrightarrow> i = j"
  by (metis linorder_neqE_nat port_tail_no_later)

lemma backtrack_finds:
  "port_tail (drop i s) \<Longrightarrow> i \<le> n \<Longrightarrow> backtrack n s = Some (take i s)"
proof (induction n)
  case 0
  then show ?case by simp
next
  case (Suc n)
  show ?case
  proof (cases "port_tail (drop (Suc n) s)")
    case True
    with Suc.prems have "i = Suc n" by (blast intro: port_tail_unique)
    with True show ?thesis by simp
  next
    case False
    with Suc.prems have "i \<le> n" by (metis le_SucE)
    with Suc False show ?thesis by simp
  qed
qed

lemma backtrack_fails:
  "(\<And>i. i \<le> n \<Longrightarrow> \<not> port_tail (drop i s)) \<Longrightarrow> backtrack n s = None"
proof (induction n)
  case 0
  from "0" [of 0] show ?case by simp
next
  case (Suc n)
  from Suc.prems [of "Suc n"] have "\<not> port_tail (drop (Suc n) s)" by simp
  moreover have "backtrack n s = None" using Suc.prems by (intro Suc.IH) simp
  ultimately show ?case by simp
qed

lemma takeWhile_covers:
  "length p \<le> length (takeWhile P (p @ r)) \<longleftrightarrow> (\<forall>c\<in>set p. P c)"
proof (cases "\<forall>c\<in>set p. P c")
  case True
  then show ?thesis by (simp add: takeWhile_append2)
next
  case False
  then obtain x where x: "x \<in> set p" "\<not> P x" by blast
  then have "takeWhile P (p @ r) = takeWhile P p" by (simp add: takeWhile_append1)
  moreover have "length (takeWhile P p) < length p"
  proof -
    have "takeWhile P p \<noteq> p" using x by auto
    then have "length (takeWhile P p) \<noteq> length p"
      using takeWhile_eq_take [of P p] by auto
    then show ?thesis using length_takeWhile_le [of P p] by linarith
  qed
  ultimately show ?thesis using False by simp
qed

lemma clientID_backtrack:
  "clientID s = (case backtrack (length (takeWhile dot s)) s of None \<Rightarrow> '''' | Some g \<Rightarrow> g)"
  by (simp add: clientID_def patIP_MatchString_def patIP_FindStringSubmatch_def
      split: option.splits)

lemma MatchString_backtrack:
  "patIP_MatchString s \<longleftrightarrow> backtrack (length (takeWhile dot s)) s \<noteq> None"
  by (simp add: patIP_MatchString_def patIP_FindStringSubmatch_def split: option.splits)

lemma port_tail_at_colon:
  assumes "1 \<le> length ds" "length ds \<le> 5" "\<forall>c\<in>set ds. digit c"
  shows "port_tail (drop (length p) (p @ CHR '':'' # ds))"
  using assms by (simp add: port_tail_iff)

lemma backtrack_shape:
  assumes "1 \<le> length ds" "length ds \<le> 5" "\<forall>c\<in>set ds. digit c"
  shows "backtrack (length (takeWhile dot (p @ CHR '':'' # ds))) (p @ CHR '':'' # ds) =
           (if CHR 0x0A \<in> set p then None else Some p)"
proof (cases "CHR 0x0A \<in> set p")
  case True
  then have "\<not> (\<forall>c\<in>set p. dot c)"
    by (auto simp: dot_def)
  then have short: "\<not> length p \<le> length (takeWhile dot (p @ CHR '':'' # ds))"
    by (simp only: takeWhile_covers simp_thms)
  have "backtrack (length (takeWhile dot (p @ CHR '':'' # ds))) (p @ CHR '':'' # ds) = None"
  proof (rule backtrack_fails)
    fix i
    assume i: "i \<le> length (takeWhile dot (p @ CHR '':'' # ds))"
    show "\<not> port_tail (drop i (p @ CHR '':'' # ds))"
    proof
      assume "port_tail (drop i (p @ CHR '':'' # ds))"
      then have "i = length p"
        using port_tail_at_colon [OF assms, of p] by (rule port_tail_unique)
      with i short show False by simp
    qed
  qed
  with True show ?thesis by simp
next
  case False
  then have "\<forall>c\<in>set p. dot c"
    by (auto simp: dot_def)
  then have "length p \<le> length (takeWhile dot (p @ CHR '':'' # ds))"
    by (simp only: takeWhile_covers simp_thms)
  with port_tail_at_colon [OF assms, of p]
  have "backtrack (length (takeWhile dot (p @ CHR '':'' # ds))) (p @ CHR '':'' # ds) =
          Some (take (length p) (p @ CHR '':'' # ds))"
    by (rule backtrack_finds)
  with False show ?thesis by simp
qed

lemma backtrack_no_shape:
  assumes "\<not> (\<exists>p ds. s = p @ CHR '':'' # ds \<and> 1 \<le> length ds \<and> length ds \<le> 5 \<and>
                 (\<forall>c\<in>set ds. digit c))"
  shows "backtrack n s = None"
proof (rule backtrack_fails)
  fix i
  show "\<not> port_tail (drop i s)"
    using assms unfolding port_tail_shape by blast
qed

text \<open>
  Claim C6, amended: when the address is \<open>p\<close>, a colon and one to five digits, the
  identity is \<open>p\<close> provided \<open>p\<close> holds no newline character; when \<open>p\<close> holds a newline
  the pattern does not match (its \<^verbatim>\<open>.\<close> stops at a newline) and the identity is empty;
  and for every address that does not end in a colon and one to five digits the identity
  is empty.
\<close>

theorem clientID_of_address:
  "(1 \<le> length ds \<and> length ds \<le> 5 \<and> (\<forall>c\<in>set ds. digit c) \<and> CHR 0x0A \<notin> set p \<longrightarrow>
      patIP_MatchString (p @ CHR '':'' # ds) \<and> clientID (p @ CHR '':'' # ds) = p) \<and>
   (1 \<le> length ds \<and> length ds \<le> 5 \<and> (\<forall>c\<in>set ds. digit c) \<and> CHR 0x0A \<in> set p \<longrightarrow>
      \<not> patIP_MatchString (p @ CHR '':'' # ds) \<and> clientID (p @ CHR '':'' # ds) = '''') \<and>
   (\<not> (\<exists>q es. s = q @ CHR '':'' # es \<and> 1 \<le> length es \<and> length es \<le> 5 \<and>
              (\<forall>c\<in>set es. digit c)) \<longrightarrow>
      \<not> patIP_MatchString s \<and> clientID s = '''')"
  by (simp add: clientID_backtrack MatchString_backtrack backtrack_shape backtrack_no_shape)

theorem clientID_of_address_witness:
  "clientID (''127.0.0.1'' @ CHR '':'' # ''8080'') = ''127.0.0.1'' \<and>
   clientID ([CHR ''a'', CHR 0x0A, CHR ''b''] @ CHR '':'' # ''80'') = '''' \<and>
   clientID [] = ''''"
  using clientID_of_address [of "''8080''" "''127.0.0.1''" "[]"]
    clientID_of_address [of "''80''" "[CHR ''a'', CHR 0x0A, CHR ''b'']" "[]"]
  by (simp add: digit_def)

text \<open>
  Claim C6 as stated fails: this address ends in a colon and two digits, and its identity
  is not what stands before them.
\<close>

theorem clientID_newline_counterexample:
  "1 \<le> length ''80'' \<and> length ''80'' \<le> 5 \<and> list_all digit ''80'' \<and>
   clientID ([CHR ''a'', CHR 0x0A, CHR ''b''] @ CHR '':'' # ''80'') \<noteq>
     [CHR ''a'', CHR 0x0A, CHR ''b'']"
  by (simp add: digit_def clientID_def patIP_MatchString_def patIP_FindStringSubmatch_def
      dot_def port_tail_def)

text \<open>
  Claim C10: an address that is just a colon and one to five digits matches the pattern
  and its identity is the empty string, the identity of every address the pattern does
  not match. A call of \<^verbatim>\<open>Allow\<close> with either address writes the record at the empty
  identity, with the count found there (0 when there is none) plus one, and answers by
  that count; the two calls do the same to the store, and one after the other they raise
  the one count by two.
\<close>

theorem colon_port_is_empty_identity:
  "(1 \<le> length ds \<and> length ds \<le> 5 \<and> (\<forall>c\<in>set ds. digit c) \<longrightarrow>
      patIP_MatchString (CHR '':'' # ds) \<and> clientID (CHR '':'' # ds) = '''' \<and>
      fmlookup (activity (fst (Allow rl now \<lparr>RemoteAddr = CHR '':'' # ds\<rparr>))) '''' =
        Some \<lparr>requestCount = count_of rl '''' + 1, lastSeen = now\<rparr> \<and>
      snd (Allow rl now \<lparr>RemoteAddr = CHR '':'' # ds\<rparr>) = (count_of rl '''' + 1 \<le>s limit rl) \<and>
      (\<not> patIP_MatchString s \<longrightarrow>
         clientID s = clientID (CHR '':'' # ds) \<and>
         Allow rl now \<lparr>RemoteAddr = s\<rparr> = Allow rl now \<lparr>RemoteAddr = CHR '':'' # ds\<rparr> \<and>
         fmlookup (activity (fst (Allow rl now \<lparr>RemoteAddr = s\<rparr>))) '''' =
           Some \<lparr>requestCount = count_of rl '''' + 1, lastSeen = now\<rparr> \<and>
         count_of (fst (Allow (fst (Allow rl now \<lparr>RemoteAddr = s\<rparr>)) later
                          \<lparr>RemoteAddr = CHR '':'' # ds\<rparr>)) '''' =
           count_of rl '''' + 2))"
proof -
  have port: "patIP_MatchString (CHR '':'' # ds) \<and> clientID (CHR '':'' # ds) = ''''"
    if "1 \<le> length ds" "length ds \<le> 5" "\<forall>c\<in>set ds. digit c"
    using that backtrack_shape [of ds "[]"]
    by (simp add: clientID_backtrack MatchString_backtrack)
  have other: "clientID s = ''''" if "\<not> patIP_MatchString s"
    using that by (simp add: clientID_def)
  have written: "fmlookup (activity (fst (Allow rl now \<lparr>RemoteAddr = a\<rparr>))) '''' =
        Some \<lparr>requestCount = count_of rl '''' + 1, lastSeen = now\<rparr> \<and>
      snd (Allow rl now \<lparr>RemoteAddr = a\<rparr>) = (count_of rl '''' + 1 \<le>s limit rl)"
    if "clientID a = ''''" for a
    using that lookup_Allow [of rl now "\<lparr>RemoteAddr = a\<rparr>"]
      snd_Allow [of rl now "\<lparr>RemoteAddr = a\<rparr>"]
    by simp
  have twice: "count_of (fst (Allow (fst (Allow rl now \<lparr>RemoteAddr = a\<rparr>)) later
                          \<lparr>RemoteAddr = b\<rparr>)) '''' = count_of rl '''' + 2"
    if "clientID a = ''''" "clientID b = ''''" for a b
    using that by (simp add: count_of_Allow)
  have same: "Allow rl now \<lparr>RemoteAddr = a\<rparr> = Allow rl now \<lparr>RemoteAddr = b\<rparr>"
    if "clientID a = ''''" "clientID b = ''''" for a b
    using that by (simp add: Allow_def)
  show ?thesis
  proof (intro impI)
    assume "1 \<le> length ds \<and> length ds \<le> 5 \<and> (\<forall>c\<in>set ds. digit c)"
    then have p: "patIP_MatchString (CHR '':'' # ds)" "clientID (CHR '':'' # ds) = ''''"
      using port by simp_all
    have "clientID s = clientID (CHR '':'' # ds) \<and>
         Allow rl now \<lparr>RemoteAddr = s\<rparr> = Allow rl now \<lparr>RemoteAddr = CHR '':'' # ds\<rparr> \<and>
         fmlookup (activity (fst (Allow rl now \<lparr>RemoteAddr = s\<rparr>))) '''' =
           Some \<lparr>requestCount = count_of rl '''' + 1, lastSeen = now\<rparr> \<and>
         count_of (fst (Allow (fst (Allow rl now \<lparr>RemoteAddr = s\<rparr>)) later
                          \<lparr>RemoteAddr = CHR '':'' # ds\<rparr>)) '''' =
           count_of rl '''' + 2"
      if "\<not> patIP_MatchString s"
      using other [OF that] p(2) written [of s] twice [of s "CHR '':'' # ds"]
        same [of s "CHR '':'' # ds"]
      by simp
    with p written [OF p(2)] show
      "patIP_MatchString (CHR '':'' # ds) \<and> clientID (CHR '':'' # ds) = '''' \<and>
      fmlookup (activity (fst (Allow rl now \<lparr>RemoteAddr = CHR '':'' # ds\<rparr>))) '''' =
        Some \<lparr>requestCount = count_of rl '''' + 1, lastSeen = now\<rparr> \<and>
      snd (Allow rl now \<lparr>RemoteAddr = CHR '':'' # ds\<rparr>) = (count_of rl '''' + 1 \<le>s limit rl) \<and>
      (\<not> patIP_MatchString s \<longrightarrow>
         clientID s = clientID (CHR '':'' # ds) \<and>
         Allow rl now \<lparr>RemoteAddr = s\<rparr> = Allow rl now \<lparr>RemoteAddr = CHR '':'' # ds\<rparr> \<and>
         fmlookup (activity (fst (Allow rl now \<lparr>RemoteAddr = s\<rparr>))) '''' =
           Some \<lparr>requestCount = count_of rl '''' + 1, lastSeen = now\<rparr> \<and>
         count_of (fst (Allow (fst (Allow rl now \<lparr>RemoteAddr = s\<rparr>)) later
                          \<lparr>RemoteAddr = CHR '':'' # ds\<rparr>)) '''' =
           count_of rl '''' + 2)"
      by blast
  qed
qed

theorem colon_port_is_empty_identity_witness:
  "patIP_MatchString '':8080'' \<and> clientID '':8080'' = '''' \<and>
   clientID ''test'' = clientID '':8080'' \<and>
   fmlookup (activity (fst (Allow two_clients 7 \<lparr>RemoteAddr = '':8080''\<rparr>))) '''' =
     Some \<lparr>requestCount = 1, lastSeen = 7\<rparr> \<and>
   snd (Allow two_clients 7 \<lparr>RemoteAddr = '':8080''\<rparr>) \<and>
   Allow two_clients 7 \<lparr>RemoteAddr = ''test''\<rparr> =
     Allow two_clients 7 \<lparr>RemoteAddr = '':8080''\<rparr> \<and>
   count_of (fst (Allow (fst (Allow two_clients 7 \<lparr>RemoteAddr = ''test''\<rparr>)) 8
                    \<lparr>RemoteAddr = '':8080''\<rparr>)) '''' = 2"
proof -
  have d: "1 \<le> length ''8080'' \<and> length ''8080'' \<le> 5 \<and> (\<forall>c\<in>set ''8080''. digit c)"
    by (simp add: digit_def)
  have n: "\<not> patIP_MatchString ''test''"
    by (simp add: patIP_MatchString_def patIP_FindStringSubmatch_def dot_def port_tail_def)
  have c: "count_of two_clients [] = 0" "limit two_clients = 5"
    by (simp_all add: two_clients_def count_of_def)
  note t = colon_port_is_empty_identity [of "''8080''" two_clients 7 "''test''" 8, THEN mp, OF d]
  from t have p: "patIP_MatchString '':8080''" "clientID '':8080'' = []"
    by blast+
  from t c
  have w: "fmlookup (activity (fst (Allow two_clients 7 \<lparr>RemoteAddr = '':8080''\<rparr>))) [] =
             Some \<lparr>requestCount = 1, lastSeen = 7\<rparr>"
    by simp
  from t c have a: "snd (Allow two_clients 7 \<lparr>RemoteAddr = '':8080''\<rparr>)"
    by (simp add: word_sle_eq)
  from t n
  have s: "clientID ''test'' = clientID '':8080''"
    "Allow two_clients 7 \<lparr>RemoteAddr = ''test''\<rparr> =
       Allow two_clients 7 \<lparr>RemoteAddr = '':8080''\<rparr>"
    "count_of (fst (Allow (fst (Allow two_clients 7 \<lparr>RemoteAddr = ''test''\<rparr>)) 8
                    \<lparr>RemoteAddr = '':8080''\<rparr>)) [] = count_of two_clients [] + 2"
    by blast+
  from s(3) c(1)
  have "count_of (fst (Allow (fst (Allow two_clients 7 \<lparr>RemoteAddr = ''test''\<rparr>)) 8
                    \<lparr>RemoteAddr = '':8080''\<rparr>)) [] = 2"
    by (simp only: add_0)
  with p w a s(1,2) show ?thesis by (simp only: simp_thms)
qed

subsection \<open>Runs without a reset tick\<close>

lemma count_of_resetTick: "count_of (resetTick rl) ident = 0"
  by (simp add: count_of_def resetTick_lookup split: option.splits)

lemma zero_count_not_stale: "count_of rl ident = 0 \<Longrightarrow> no_stale_count t0 rl ident"
  by (simp add: no_stale_count_def)

lemma no_stale_count_Allow:
  assumes "no_stale_count t0 rl ident" "clientID (RemoteAddr rq) = ident \<longrightarrow> t0 \<le> now"
  shows "no_stale_count t0 (fst (Allow rl now rq)) ident"
  using assms by (auto simp: no_stale_count_def seen_since_def count_of_def Allow_eq)

text \<open>
  A cleanup tick less than the period after \<open>t0\<close> leaves the count of a client alone
  that carries no count from before \<open>t0\<close>: its record stays, or it had count 0.
\<close>

lemma cleanupTick_count:
  assumes "0 < sint dur" "no_stale_count t0 rl ident" "now - t0 < sint dur"
  shows "count_of (cleanupTick dur now rl) ident = count_of rl ident \<and>
         no_stale_count t0 (cleanupTick dur now rl) ident"
proof (cases "fmlookup (activity rl) ident")
  case None
  then show ?thesis
    by (simp add: cleanupTick_lookup count_of_def no_stale_count_def seen_since_def)
next
  case (Some a)
  show ?thesis
  proof (cases "sint dur \<le> now - lastSeen a")
    case True
    with assms(3) have "\<not> t0 \<le> lastSeen a" by linarith
    with assms(2) Some have "requestCount a = 0"
      by (simp add: no_stale_count_def seen_since_def count_of_def)
    with Some True show ?thesis
      by (simp add: cleanupTick_lookup Sub_ge_iff [OF assms(1)] count_of_def
          no_stale_count_def seen_since_def)
  next
    case False
    with Some assms(2) show ?thesis
      by (simp add: cleanupTick_lookup Sub_ge_iff [OF assms(1)] count_of_def
          no_stale_count_def seen_since_def)
  qed
qed

text \<open>What one event that is no reset tick does to a client's count and answers.\<close>

lemma step_client:
  assumes "step sys e = (sys', out)" "e \<noteq> ResetTick"
    and "clientCleanup sys = Some dur" "0 < sint dur"
    and "in_window ident t0 (sint dur) e" "no_stale_count t0 (limiter sys) ident"
  shows "clientCleanup sys' = Some dur \<and> limit (limiter sys') = limit (limiter sys) \<and>
         no_stale_count t0 (limiter sys') ident \<and>
         count_of (limiter sys') ident = count_of (limiter sys) ident + of_nat (calls_of ident [e]) \<and>
         answers ident out =
           (if calls_of ident [e] = 0 then []
            else [count_of (limiter sys) ident + 1 \<le>s limit (limiter sys)])"
proof (cases e)
  case (AllowCall rq now)
  with assms(1) have s: "sys' = sys\<lparr>limiter := fst (Allow (limiter sys) now rq)\<rparr>"
      and o: "out = [(clientID (RemoteAddr rq), snd (Allow (limiter sys) now rq))]"
    by (auto split: prod.splits)
  from assms(5) AllowCall have "clientID (RemoteAddr rq) = ident \<longrightarrow> t0 \<le> now" by simp
  with assms(6) have "no_stale_count t0 (fst (Allow (limiter sys) now rq)) ident"
    by (rule no_stale_count_Allow)
  then show ?thesis
    using assms(3) by (simp add: s o AllowCall count_of_Allow limit_Allow snd_Allow answers_def)
next
  case ResetTick
  with assms(2) show ?thesis by simp
next
  case (CleanupTick now)
  with assms(1,3) have s: "sys' = sys\<lparr>limiter := cleanupTick dur now (limiter sys)\<rparr>"
      and o: "out = []"
    by auto
  from assms(5) CleanupTick have "now - t0 < sint dur" by simp
  with assms(4,6)
  have "count_of (cleanupTick dur now (limiter sys)) ident = count_of (limiter sys) ident \<and>
        no_stale_count t0 (cleanupTick dur now (limiter sys)) ident"
    by (intro cleanupTick_count)
  then show ?thesis
    using assms(3) by (simp add: s o CleanupTick limit_cleanupTick answers_def)
qed

lemma calls_of_Cons: "calls_of ident (e # es) = calls_of ident [e] + calls_of ident es"
  by (cases e) simp_all

lemma calls_of_append: "calls_of ident (xs @ ys) = calls_of ident xs + calls_of ident ys"
proof (induction xs)
  case Nil
  then show ?case by simp
next
  case (Cons e xs)
  then show ?case
    using calls_of_Cons [of ident e "xs @ ys"] calls_of_Cons [of ident e xs] by simp
qed

lemma calls_of_take_mono:
  assumes "n \<le> m"
  shows "calls_of ident (take n evs) \<le> calls_of ident (take m evs)"
proof -
  have "take n (take m evs) = take n evs" using assms by (simp add: min_def)
  then have "take m evs = take n evs @ drop n (take m evs)"
    by (metis append_take_drop_id)
  then have "calls_of ident (take m evs) =
      calls_of ident (take n evs) + calls_of ident (drop n (take m evs))"
    by (metis calls_of_append)
  then show ?thesis by simp
qed

lemma calls_of_take_le: "calls_of ident (take n evs) \<le> calls_of ident evs"
  using calls_of_take_mono [of n "max n (length evs)" ident evs] by simp

lemma no_reset_take: "no_reset evs \<Longrightarrow> no_reset (take n evs)"
  by (auto simp: no_reset_def list_all_iff dest: in_set_takeD)

lemma same_interval_take:
  "same_interval ident t0 w evs \<Longrightarrow> same_interval ident t0 w (take n evs)"
  by (auto simp: same_interval_def list_all_iff dest: in_set_takeD)

lemma calls_of_single_le: "calls_of ident [e] = 0 \<or> calls_of ident [e] = 1"
  by (cases e) simp_all

lemma answers_append: "answers ident (xs @ ys) = answers ident xs @ answers ident ys"
  by (simp add: answers_def)

lemma exec_Cons_D:
  assumes "exec sys (e # es) = (sys', outs)"
  obtains sys1 out1 out2 where "step sys e = (sys1, out1)" "exec sys1 es = (sys', out2)"
    "outs = out1 @ out2"
  using assms by (auto split: prod.splits)

lemma exec_pair: "exec sys evs = (fst (exec sys evs), snd (exec sys evs))"
  by simp

lemma exec_append_fst: "fst (exec sys (xs @ ys)) = fst (exec (fst (exec sys xs)) ys)"
  by (induction xs arbitrary: sys) (simp_all add: case_prod_beta)

lemma exec_single_fst: "fst (exec sys [e]) = fst (step sys e)"
  by (simp add: case_prod_beta)

lemma step_config:
  "step sys e = (sys', out) \<Longrightarrow>
   clientCleanup sys' = clientCleanup sys \<and> limitReset sys' = limitReset sys \<and>
   limit (limiter sys') = limit (limiter sys)"
  by (cases e)
     (auto simp: limit_Allow limit_resetTick limit_cleanupTick Allow_eq
           split: prod.splits option.splits)

lemma exec_config:
  "exec sys evs = (sys', outs) \<Longrightarrow>
   clientCleanup sys' = clientCleanup sys \<and> limitReset sys' = limitReset sys \<and>
   limit (limiter sys') = limit (limiter sys)"
proof (induction evs arbitrary: sys sys' outs)
  case Nil
  then show ?case by simp
next
  case (Cons e es)
  from Cons.prems obtain sys1 out1 out2 where
    st: "step sys e = (sys1, out1)" and ex: "exec sys1 es = (sys', out2)"
    by (rule exec_Cons_D)
  from step_config [OF st] Cons.IH [OF ex] show ?case by simp
qed

text \<open>A state reached from \<open>New\<close> has the configuration \<open>New\<close> checked.\<close>

lemma reached_config:
  assumes "New cfg = Inr sys0" "exec sys0 pre = (sys1, outs1)"
  shows "clientCleanup sys1 = Some (ClientTimeout cfg) \<and>
         limitReset sys1 = Some (LimitInterval cfg) \<and>
         limit (limiter sys1) = Limit cfg \<and> 0 < sint (ClientTimeout cfg)"
  using New_Inr_D [OF assms(1)] exec_config [OF assms(2)] by simp

lemma reached_reset_count:
  assumes "New cfg = Inr sys0" "exec sys0 pre = (sys1, outs1)"
  shows "count_of (limiter (fst (step sys1 ResetTick))) ident = 0"
  using reached_config [OF assms] by (simp add: count_of_resetTick)

text \<open>
  One event that is no reset tick, in a run whose cleanup ticks leave the client's count
  alone.
\<close>

lemma step_spared:
  assumes "step sys e = (sys', out)" "e \<noteq> ResetTick" "spared ident sys [e]"
  shows "limit (limiter sys') = limit (limiter sys) \<and>
         count_of (limiter sys') ident = count_of (limiter sys) ident + of_nat (calls_of ident [e]) \<and>
         answers ident out =
           (if calls_of ident [e] = 0 then []
            else [count_of (limiter sys) ident + 1 \<le>s limit (limiter sys)])"
proof (cases e)
  case (AllowCall rq now)
  with assms(1) have s: "sys' = sys\<lparr>limiter := fst (Allow (limiter sys) now rq)\<rparr>"
      and o: "out = [(clientID (RemoteAddr rq), snd (Allow (limiter sys) now rq))]"
    by (auto split: prod.splits)
  show ?thesis
    by (simp add: s o AllowCall count_of_Allow limit_Allow snd_Allow answers_def)
next
  case ResetTick
  with assms(2) show ?thesis by simp
next
  case (CleanupTick now)
  from assms(1) have s: "sys' = fst (step sys e)" by simp
  from assms(1) CleanupTick have o: "out = []" by (auto split: option.splits)
  from assms(3) CleanupTick
  have "count_of (limiter sys') ident = count_of (limiter sys) ident" by (simp add: s)
  with step_config [OF assms(1)] show ?thesis by (simp add: o CleanupTick answers_def)
qed

lemma exec_client:
  assumes "exec sys evs = (sys', outs)" "no_reset evs" "spared ident sys evs"
  shows "count_of (limiter sys') ident =
           count_of (limiter sys) ident + of_nat (calls_of ident evs) \<and>
         answers ident outs =
           map (\<lambda>k. count_of (limiter sys) ident + of_nat (Suc k) \<le>s limit (limiter sys))
             [0..<calls_of ident evs]"
  using assms
proof (induction evs arbitrary: sys sys' outs)
  case Nil
  then show ?case by (simp add: answers_def)
next
  case (Cons e es)
  from Cons.prems(1) obtain sys1 out1 out2 where
    st: "step sys e = (sys1, out1)" and ex: "exec sys1 es = (sys', out2)"
    and outs: "outs = out1 @ out2"
    by (rule exec_Cons_D)
  from Cons.prems(2) have nr: "e \<noteq> ResetTick" "no_reset es"
    by (simp_all add: no_reset_def)
  from Cons.prems(3) st have sp: "spared ident sys [e]" "spared ident sys1 es"
    by simp_all
  note s1 = step_spared [OF st nr(1) sp(1)]
  from s1 have lim: "limit (limiter sys1) = limit (limiter sys)"
    and cnt: "count_of (limiter sys1) ident =
                count_of (limiter sys) ident + of_nat (calls_of ident [e])"
    and ans: "answers ident out1 =
                (if calls_of ident [e] = 0 then []
                 else [count_of (limiter sys) ident + 1 \<le>s limit (limiter sys)])"
    by simp_all
  note ih = Cons.IH [OF ex nr(2) sp(2)]
  show ?case
  proof (cases "calls_of ident [e] = 0")
    case True
    with ih cnt ans lim show ?thesis
      by (simp add: outs answers_append calls_of_Cons [of ident e es])
  next
    case False
    with calls_of_single_le [of ident e] have one: "calls_of ident [e] = 1" by simp
    have "answers ident outs =
            (count_of (limiter sys) ident + 1 \<le>s limit (limiter sys)) #
            map (\<lambda>k. count_of (limiter sys) ident + 1 + of_nat (Suc k) \<le>s limit (limiter sys))
              [0..<calls_of ident es]"
      using ih cnt ans lim one by (simp add: outs answers_append)
    also have "\<dots> =
            map (\<lambda>k. count_of (limiter sys) ident + of_nat (Suc k) \<le>s limit (limiter sys))
              [0..<Suc (calls_of ident es)]"
      by (simp add: map_upt_Suc add.assoc del: upt_Suc)
    finally show ?thesis
      using ih cnt one by (simp add: calls_of_Cons [of ident e es] add.assoc del: upt_Suc)
  qed
qed

text \<open>
  Cleanup ticks less than the period after \<open>t0\<close> spare a client that carries no count
  from before \<open>t0\<close> and calls at \<open>t0\<close> or later.
\<close>

lemma window_spared:
  assumes "clientCleanup sys = Some dur" "0 < sint dur"
    and "same_interval ident t0 (sint dur) evs" "no_stale_count t0 (limiter sys) ident"
  shows "spared ident sys evs"
  using assms
proof (induction evs arbitrary: sys)
  case Nil
  then show ?case by simp
next
  case (Cons e es)
  from Cons.prems(3)
  have win: "in_window ident t0 (sint dur) e" "same_interval ident t0 (sint dur) es"
    by (simp_all add: same_interval_def)
  have st: "step sys e = (fst (step sys e), snd (step sys e))" by simp
  have next_ok: "clientCleanup (fst (step sys e)) = Some dur \<and>
                 no_stale_count t0 (limiter (fst (step sys e))) ident"
  proof (cases "e = ResetTick")
    case True
    then show ?thesis
      using Cons.prems(1,4)
      by (cases "limitReset sys") (simp_all add: count_of_resetTick zero_count_not_stale)
  next
    case False
    from step_client [OF st False Cons.prems(1,2) win(1) Cons.prems(4)] show ?thesis by simp
  qed
  then have rest: "spared ident (fst (step sys e)) es"
    using Cons.IH [of "fst (step sys e)"] Cons.prems(2) win(2) by simp
  have here: "count_of (limiter (fst (step sys e))) ident = count_of (limiter sys) ident"
    if "e = CleanupTick now" for now
  proof -
    from that have "e \<noteq> ResetTick" by simp
    from step_client [OF st this Cons.prems(1,2) win(1) Cons.prems(4)] that
    show ?thesis by simp
  qed
  from rest here show ?case by (cases e) simp_all
qed

lemma spared_take: "spared ident sys evs \<Longrightarrow> spared ident sys (take n evs)"
proof (induction evs arbitrary: sys n)
  case Nil
  then show ?case by simp
next
  case (Cons e es)
  then show ?case by (cases n) simp_all
qed

lemma sint_add_of_nat:
  assumes "sint (c :: 64 word) + int n < 2 ^ 63"
  shows "sint (c + of_nat n) = sint c + int n"
proof -
  have "c + of_nat n = word_of_int (sint c + int n)"
    by simp
  moreover have "- (2 ^ 63) \<le> sint c + int n"
    using sint_bounds64 [of c] by linarith
  ultimately show ?thesis
    using assms sint_word_of_int_in_range [of "sint c + int n"] by (simp only:)
qed

lemma sint_of_nat_Suc:
  assumes "int k < 2 ^ 63 - 1"
  shows "sint (of_nat (Suc k) :: 64 word) = int k + 1"
  using assms sint_add_of_nat [of 0 "Suc k"] by simp


text \<open>
  The answers a client gets in a run with no reset tick whose cleanup ticks spare it, from
  any state reached from \<open>New\<close>.
\<close>

lemma reached_answers:
  assumes "New cfg = Inr sys0" "exec sys0 pre = (sys1, outs1)"
    and "exec sys1 evs = (sys2, outs2)" "no_reset evs" "spared ident sys1 evs"
  shows "answers ident outs2 =
           map (\<lambda>k. count_of (limiter sys1) ident + of_nat (Suc k) \<le>s Limit cfg)
             [0..<calls_of ident evs] \<and>
         count_of (limiter sys2) ident =
           count_of (limiter sys1) ident + of_nat (calls_of ident evs)"
  using exec_client [OF assms(3,4,5)] reached_config [OF assms(1,2)] by simp

lemma reached_spared:
  assumes "New cfg = Inr sys0" "exec sys0 pre = (sys1, outs1)"
    and "no_stale_count t0 (limiter sys1) ident"
    and "same_interval ident t0 (sint (ClientTimeout cfg)) evs"
  shows "spared ident sys1 evs"
proof -
  note c = reached_config [OF assms(1,2)]
  from c have cc: "clientCleanup sys1 = Some (ClientTimeout cfg)"
    and pos: "0 < sint (ClientTimeout cfg)"
    by simp_all
  from cc pos assms(4,3) show ?thesis by (rule window_spared)
qed

lemma reached_answer_nth:
  assumes "New cfg = Inr sys0" "exec sys0 pre = (sys1, outs1)"
    and "exec sys1 evs = (sys2, outs2)" "no_reset evs" "spared ident sys1 evs"
    and "k < calls_of ident evs"
    and "sint (count_of (limiter sys1) ident) + int k + 1 < 2 ^ 63"
  shows "answers ident outs2 ! k \<longleftrightarrow>
           sint (count_of (limiter sys1) ident) + int k + 1 \<le> sint (Limit cfg)"
proof -
  from reached_answers [OF assms(1-5)]
  have a: "answers ident outs2 ! k =
          (count_of (limiter sys1) ident + of_nat (Suc k) \<le>s Limit cfg)"
    using assms(6) by (simp del: of_nat_Suc)
  have b: "sint (count_of (limiter sys1) ident + of_nat (Suc k)) =
             sint (count_of (limiter sys1) ident) + int k + 1"
    using sint_add_of_nat [of "count_of (limiter sys1) ident" "Suc k"] assms(7) by simp
  show ?thesis by (simp only: a word_sle_eq b)
qed

lemma reached_count_sint:
  assumes "New cfg = Inr sys0" "exec sys0 pre = (sys1, outs1)"
    and "no_reset evs" "spared ident sys1 evs"
    and "sint (count_of (limiter sys1) ident) + int (calls_of ident evs) < 2 ^ 63"
  shows "sint (count_of (limiter (fst (exec sys1 (take n evs)))) ident) =
           sint (count_of (limiter sys1) ident) + int (calls_of ident (take n evs))"
proof -
  from reached_answers [OF assms(1,2) exec_pair no_reset_take [OF assms(3)]
      spared_take [OF assms(4)]]
  have "count_of (limiter (fst (exec sys1 (take n evs)))) ident =
          count_of (limiter sys1) ident + of_nat (calls_of ident (take n evs))"
    by simp
  moreover have "sint (count_of (limiter sys1) ident) + int (calls_of ident (take n evs)) < 2 ^ 63"
    using assms(5) calls_of_take_le [of ident n evs] by linarith
  ultimately show ?thesis by (simp only: sint_add_of_nat)
qed

lemma fresh_count: "New cfg = Inr sys0 \<Longrightarrow> count_of (limiter sys0) ident = 0"
  using New_Inr_D [of cfg sys0] by (simp add: count_of_def)

lemma exec_Nil_pair: "exec sys [] = (sys, [])"
  by simp

lemma clientID_test: "clientID ''test'' = ''''"
  by (simp add: clientID_def patIP_MatchString_def patIP_FindStringSubmatch_def dot_def
      port_tail_def)

lemma clientID_10_0_0_1: "clientID ''10.0.0.1:4711'' = ''10.0.0.1''"
  by (simp add: clientID_def patIP_MatchString_def patIP_FindStringSubmatch_def dot_def
      port_tail_def digit_def)

lemma calls_of_test_calls: "calls_of '''' (replicate n test_call) = n"
  by (induction n) (simp_all add: test_call_def clientID_test)

lemma no_reset_test_calls: "no_reset (replicate n test_call)"
  by (simp add: no_reset_def list_all_iff test_call_def)

lemma same_interval_test_calls: "same_interval ident 0 w (replicate n test_call)"
  by (simp add: same_interval_def list_all_iff test_call_def)

lemma spared_test_calls: "spared ident sys (replicate n test_call)"
  by (induction n arbitrary: sys) (simp_all add: test_call_def)





lemma test_calls_answer:
  assumes "New cfg = Inr sys0" "k < n"
  shows "answers '''' (snd (exec sys0 (replicate n test_call))) ! k =
           (of_nat (Suc k) \<le>s Limit cfg)"
proof -
  from reached_answers [OF assms(1) exec_Nil_pair exec_pair no_reset_test_calls
      spared_test_calls]
  have "answers '''' (snd (exec sys0 (replicate n test_call))) =
          map (\<lambda>k. count_of (limiter sys0) '''' + of_nat (Suc k) \<le>s Limit cfg) [0..<n]"
    by (simp only: calls_of_test_calls)
  with assms(2) show ?thesis by (simp add: fresh_count [OF assms(1)] del: of_nat_Suc)
qed

lemma test_calls_count:
  assumes "New cfg = Inr sys0"
  shows "count_of (limiter (fst (exec sys0 (replicate n test_call)))) '''' = of_nat n"
proof -
  from reached_answers [OF assms(1) exec_Nil_pair exec_pair no_reset_test_calls
      spared_test_calls]
  have "count_of (limiter (fst (exec sys0 (replicate n test_call)))) '''' =
          count_of (limiter sys0) '''' + of_nat n"
    by (simp only: calls_of_test_calls)
  then show ?thesis by (simp add: fresh_count [OF assms(1)])
qed


lemma New_limit_one:
  "New \<lparr>Limit = 1, LimitInterval = Second, ClientTimeout = Minute\<rparr> = Inr limit_one"
  by (simp add: New_cases sint_Second sint_Minute limit_one_def)

lemma Sub_minute: "Sub 60000000000 0 = 60000000000"
  by (simp add: Sub_def sint_minDuration sint_maxDuration)


lemma evicted_after_denial_answers:
  "no_reset evicted_after_denial \<and> \<not> spared '''' limit_one evicted_after_denial \<and>
   answers '''' (snd (exec limit_one evicted_after_denial)) = [True, False, True]"
  by (simp add: evicted_after_denial_def no_reset_def limit_one_def answers_def clientID_test
      count_of_def
      Allow_eq cleanupTick_lookup limit_cleanupTick Sub_minute word_sle_eq sint_Minute)


text \<open>
  Claim C5, amended. Take any state a limiter built by \<^verbatim>\<open>New\<close> reaches, and a run from
  there with no reset tick and with no cleanup tick that deletes a counted record of the
  client, in which the client's count stays below \<open>2^63\<close>. After every prefix of the run
  the stored count is the count at the start plus the number of the client's calls so
  far, so it never decreases, whatever the answers; the \<open>k\<close>-th call is answered true
  exactly when that count is at most the limit; hence once a call of the client is
  answered false, so is every later one, and all are when the count is above the limit
  at the start, as it is after a call that was answered false. No cleanup tick deletes a
  counted record of the client when the client carries no count from before \<open>t0\<close> (it
  was last seen at \<open>t0\<close> or later, as after a call at \<open>t0\<close>, or its count is 0, as after
  a reset tick), calls at \<open>t0\<close> or later, and the cleanup ticks come less than
  \<open>ClientTimeout\<close> after \<open>t0\<close>.
\<close>

theorem count_rises_denial_stays:
  assumes "New cfg = Inr sys0" and "exec sys0 pre = (sys1, outs1)"
  shows
  "(exec sys1 evs = (sys2, outs2) \<and> no_reset evs \<and> spared ident sys1 evs \<and>
    sint (count_of (limiter sys1) ident) + int (calls_of ident evs) < 2 ^ 63 \<longrightarrow>
      (\<forall>n. sint (count_of (limiter (fst (exec sys1 (take n evs)))) ident) =
            sint (count_of (limiter sys1) ident) + int (calls_of ident (take n evs))) \<and>
      (\<forall>n m. n \<le> m \<longrightarrow>
            sint (count_of (limiter (fst (exec sys1 (take n evs)))) ident) \<le>
            sint (count_of (limiter (fst (exec sys1 (take m evs)))) ident)) \<and>
      length (answers ident outs2) = calls_of ident evs \<and>
      (\<forall>k < calls_of ident evs.
         answers ident outs2 ! k \<longleftrightarrow>
           sint (count_of (limiter sys1) ident) + int k + 1 \<le> sint (Limit cfg)) \<and>
      (\<forall>i j. i < j \<and> j < calls_of ident evs \<and> \<not> answers ident outs2 ! i \<longrightarrow>
         \<not> answers ident outs2 ! j) \<and>
      (sint (Limit cfg) < sint (count_of (limiter sys1) ident) \<longrightarrow>
         answers ident outs2 = replicate (calls_of ident evs) False)) \<and>
   (step sys1 (AllowCall rq t0) = (sys1', [(ident, False)]) \<longrightarrow>
      no_stale_count t0 (limiter sys1') ident \<and>
      sint (Limit cfg) < sint (count_of (limiter sys1') ident)) \<and>
   count_of (limiter (fst (step sys1 ResetTick))) ident = 0 \<and>
   (count_of (limiter sys1) ident = 0 \<longrightarrow> no_stale_count t0 (limiter sys1) ident) \<and>
   (no_stale_count t0 (limiter sys1) ident \<and>
    same_interval ident t0 (sint (ClientTimeout cfg)) evs \<longrightarrow> spared ident sys1 evs)"
proof -
  note c = reached_config [OF assms]
  have reset: "count_of (limiter (fst (step sys1 ResetTick))) ident = 0"
    using assms by (rule reached_reset_count)
  have zero: "no_stale_count t0 (limiter sys1) ident" if "count_of (limiter sys1) ident = 0"
    using that by (rule zero_count_not_stale)
  have win: "spared ident sys1 evs"
    if "no_stale_count t0 (limiter sys1) ident"
      "same_interval ident t0 (sint (ClientTimeout cfg)) evs"
    using assms that by (rule reached_spared)
  have denied: "no_stale_count t0 (limiter sys1') ident \<and>
      sint (Limit cfg) < sint (count_of (limiter sys1') ident)"
    if st: "step sys1 (AllowCall rq t0) = (sys1', [(ident, False)])"
  proof -
    from st have s: "sys1' = sys1\<lparr>limiter := fst (Allow (limiter sys1) t0 rq)\<rparr>"
      and id: "ident = clientID (RemoteAddr rq)"
      and no: "\<not> snd (Allow (limiter sys1) t0 rq)"
      by (auto split: prod.splits)
    have "seen_since t0 (limiter sys1') ident"
      by (simp add: s id Allow_eq seen_since_def)
    then have 1: "no_stale_count t0 (limiter sys1') ident"
      by (simp add: no_stale_count_def)
    have cnt: "count_of (limiter sys1') ident = count_of (limiter sys1) ident + 1"
      by (simp add: s id count_of_Allow)
    from no have "\<not> (count_of (limiter sys1) ident + 1 \<le>s limit (limiter sys1))"
      by (simp add: snd_Allow id)
    then have 2: "sint (Limit cfg) < sint (count_of (limiter sys1') ident)"
      using c by (simp add: cnt word_sle_eq)
    from 1 2 show ?thesis ..
  qed
  have run:
    "(\<forall>n. sint (count_of (limiter (fst (exec sys1 (take n evs)))) ident) =
            sint (count_of (limiter sys1) ident) + int (calls_of ident (take n evs))) \<and>
      (\<forall>n m. n \<le> m \<longrightarrow>
            sint (count_of (limiter (fst (exec sys1 (take n evs)))) ident) \<le>
            sint (count_of (limiter (fst (exec sys1 (take m evs)))) ident)) \<and>
      length (answers ident outs2) = calls_of ident evs \<and>
      (\<forall>k < calls_of ident evs.
         answers ident outs2 ! k \<longleftrightarrow>
           sint (count_of (limiter sys1) ident) + int k + 1 \<le> sint (Limit cfg)) \<and>
      (\<forall>i j. i < j \<and> j < calls_of ident evs \<and> \<not> answers ident outs2 ! i \<longrightarrow>
         \<not> answers ident outs2 ! j) \<and>
      (sint (Limit cfg) < sint (count_of (limiter sys1) ident) \<longrightarrow>
         answers ident outs2 = replicate (calls_of ident evs) False)"
    if e: "exec sys1 evs = (sys2, outs2)"
      and n: "no_reset evs" and s: "spared ident sys1 evs"
      and b: "sint (count_of (limiter sys1) ident) + int (calls_of ident evs) < 2 ^ 63"
  proof -
    have cnt: "sint (count_of (limiter (fst (exec sys1 (take n evs)))) ident) =
            sint (count_of (limiter sys1) ident) + int (calls_of ident (take n evs))" for n
      using assms n s b by (rule reached_count_sint)
    have mono: "sint (count_of (limiter (fst (exec sys1 (take n evs)))) ident) \<le>
            sint (count_of (limiter (fst (exec sys1 (take m evs)))) ident)" if "n \<le> m" for n m
      using calls_of_take_mono [OF that, of ident evs] by (simp add: cnt)
    have len: "length (answers ident outs2) = calls_of ident evs"
      using reached_answers [OF assms e n s] by simp
    have nth: "answers ident outs2 ! k \<longleftrightarrow>
           sint (count_of (limiter sys1) ident) + int k + 1 \<le> sint (Limit cfg)"
      if "k < calls_of ident evs" for k
    proof -
      from that b have "sint (count_of (limiter sys1) ident) + int k + 1 < 2 ^ 63" by linarith
      with assms e n s that show ?thesis by (rule reached_answer_nth)
    qed
    have stay: "\<not> answers ident outs2 ! j"
      if "i < j" "j < calls_of ident evs" "\<not> answers ident outs2 ! i" for i j
    proof -
      from that(1,2) have "i < calls_of ident evs" by simp
      from nth [OF this] that(3)
      have "sint (Limit cfg) < sint (count_of (limiter sys1) ident) + int i + 1" by simp
      with that(1) have "sint (Limit cfg) < sint (count_of (limiter sys1) ident) + int j + 1"
        by simp
      with nth [OF that(2)] show ?thesis by simp
    qed
    have over: "answers ident outs2 = replicate (calls_of ident evs) False"
      if "sint (Limit cfg) < sint (count_of (limiter sys1) ident)"
    proof (rule nth_equalityI)
      show "length (answers ident outs2) = length (replicate (calls_of ident evs) False)"
        by (simp add: len)
    next
      fix k
      assume "k < length (answers ident outs2)"
      then have k: "k < calls_of ident evs" by (simp add: len)
      from nth [OF k] that have "\<not> answers ident outs2 ! k" by simp
      with k show "answers ident outs2 ! k = replicate (calls_of ident evs) False ! k"
        by simp
    qed
    from cnt mono len nth stay over show ?thesis by blast
  qed
  from run denied reset zero win show ?thesis by blast
qed

lemma calls_of_after_reset: "calls_of '''' after_reset = 3"
  by (simp add: after_reset_def clientID_test clientID_10_0_0_1)

theorem count_rises_denial_stays_witness:
  "answers '''' (snd (exec (fst (exec limit_one limit_one_history)) after_reset)) ! 0 \<and>
   \<not> answers '''' (snd (exec (fst (exec limit_one limit_one_history)) after_reset)) ! 1 \<and>
   \<not> answers '''' (snd (exec (fst (exec limit_one limit_one_history)) after_reset)) ! 2 \<and>
   sint (count_of (limiter (fst (exec (fst (exec limit_one limit_one_history))
           (take 4 after_reset)))) '''') = 2"
proof -
  note t = count_rises_denial_stays
    [OF New_limit_one exec_pair,
      where pre = limit_one_history and evs = after_reset
       and ?sys2.0 = "fst (exec (fst (exec limit_one limit_one_history)) after_reset)"
       and ?outs2.0 = "snd (exec (fst (exec limit_one limit_one_history)) after_reset)"
       and ?t0.0 = 2 and ident = "''''"]
  have h: "limit_one_history =
      [AllowCall \<lparr>RemoteAddr = ''10.0.0.1:4711''\<rparr> (- 90000000000),
       AllowCall \<lparr>RemoteAddr = ''test''\<rparr> 0,
       AllowCall \<lparr>RemoteAddr = ''test''\<rparr> 0] @ [ResetTick]"
    by (simp add: limit_one_history_def)
  have z: "count_of (limiter (fst (exec limit_one limit_one_history))) '''' = 0"
    unfolding h exec_append_fst exec_single_fst
    by (rule reached_reset_count [OF New_limit_one exec_pair])
  have n: "no_reset after_reset"
    by (simp add: after_reset_def no_reset_def)
  have w: "same_interval '''' 2
             (sint (ClientTimeout \<lparr>Limit = 1, LimitInterval = Second, ClientTimeout = Minute\<rparr>))
             after_reset"
    by (simp add: after_reset_def same_interval_def sint_Minute clientID_test clientID_10_0_0_1)
  have b: "sint (count_of (limiter (fst (exec limit_one limit_one_history))) '''') +
             int (calls_of '''' after_reset) < 2 ^ 63"
    by (simp add: z calls_of_after_reset)
  note tail = t [THEN conjunct2, THEN conjunct2, THEN conjunct2]
  note stale = tail [THEN conjunct1, THEN mp, OF z]
  note sp = tail [THEN conjunct2, THEN mp, OF conjI [OF stale w]]
  note run = t [THEN conjunct1, THEN mp, OF conjI [OF exec_pair conjI [OF n conjI [OF sp b]]]]
  note cnt = run [THEN conjunct1, rule_format]
  note nth = run [THEN conjunct2, THEN conjunct2, THEN conjunct2, THEN conjunct1, rule_format]
  have a0: "answers '''' (snd (exec (fst (exec limit_one limit_one_history)) after_reset)) ! 0"
    using nth [of 0] by (simp add: calls_of_after_reset z)
  have a1: "\<not> answers '''' (snd (exec (fst (exec limit_one limit_one_history)) after_reset)) ! 1"
    using nth [of 1] by (simp add: calls_of_after_reset z)
  have a2: "\<not> answers '''' (snd (exec (fst (exec limit_one limit_one_history)) after_reset)) ! 2"
    using nth [of 2] by (simp add: calls_of_after_reset z)
  have "calls_of '''' (take 4 after_reset) = 2"
    by (simp add: after_reset_def clientID_test clientID_10_0_0_1)
  with cnt [of 4] z
  have c4: "sint (count_of (limiter (fst (exec (fst (exec limit_one limit_one_history))
           (take 4 after_reset)))) '''') = 2"
    by simp
  from a0 a1 a2 c4 show ?thesis by (simp only: simp_thms)
qed

text \<open>
  Claim C5 as stated fails in two ways. Once the count wraps around: with limit 1 and no
  tick at all, the second call of a client is answered false and its \<open>2^63\<close>-th call is
  answered true, the stored count going from \<open>2^63 - 1\<close> down to \<open>- 2^63\<close>. And when a
  cleanup tick deletes the record of a client that was denied, with no reset tick in the
  run, the client's next call starts from 0 again and is answered true.
\<close>

theorem allowed_again_counterexample:
  "New \<lparr>Limit = 1, LimitInterval = Second, ClientTimeout = Minute\<rparr> = Inr limit_one \<and>
   \<not> answers '''' (snd (exec limit_one (replicate 9223372036854775808 test_call))) ! 1 \<and>
   answers '''' (snd (exec limit_one (replicate 9223372036854775808 test_call))) !
     9223372036854775807 \<and>
   sint (count_of (limiter (fst (exec limit_one (replicate 9223372036854775807 test_call)))) '''')
     = 9223372036854775807 \<and>
   sint (count_of (limiter (fst (exec limit_one (replicate 9223372036854775808 test_call)))) '''')
     = - 9223372036854775808 \<and>
   no_reset evicted_after_denial \<and> \<not> spared '''' limit_one evicted_after_denial \<and>
   answers '''' (snd (exec limit_one evicted_after_denial)) = [True, False, True]"
proof -
  have "answers '''' (snd (exec limit_one (replicate 9223372036854775808 test_call))) ! 1 =
        (of_nat (Suc 1) \<le>s
           Limit \<lparr>Limit = 1, LimitInterval = Second, ClientTimeout = Minute\<rparr>)"
    by (rule test_calls_answer [OF New_limit_one]) simp
  then have a: "\<not> answers '''' (snd (exec limit_one (replicate 9223372036854775808 test_call))) ! 1"
    by (simp add: word_sle_eq)
  have "answers '''' (snd (exec limit_one (replicate 9223372036854775808 test_call))) !
          9223372036854775807 =
        (of_nat (Suc 9223372036854775807) \<le>s
           Limit \<lparr>Limit = 1, LimitInterval = Second, ClientTimeout = Minute\<rparr>)"
    by (rule test_calls_answer [OF New_limit_one]) simp
  moreover have "(of_nat (Suc 9223372036854775807) :: 64 word) \<le>s 1"
    by (simp add: word_sle_eq)
  ultimately
  have b: "answers '''' (snd (exec limit_one (replicate 9223372036854775808 test_call))) !
             9223372036854775807"
    by simp
  have c: "sint (count_of (limiter (fst (exec limit_one
             (replicate 9223372036854775807 test_call)))) '''') = 9223372036854775807"
    by (simp add: test_calls_count [OF New_limit_one])
  have d: "sint (count_of (limiter (fst (exec limit_one
             (replicate 9223372036854775808 test_call)))) '''') = - 9223372036854775808"
    by (simp add: test_calls_count [OF New_limit_one])
  from a b c d New_limit_one evicted_after_denial_answers show ?thesis
    by (simp only: simp_thms)
qed

end
